theory Spec2Isabelle
  imports Main "HOL-Library.AList"
begin

section \<open>Errors\<close>

text \<open>
  Go reports failure through \<open>error\<close> values and, for programming faults, through runtime
  panics. Both are values of one datatype here; \<open>RuntimePanic\<close> stands for a panic (an index
  out of range, a nil dereference), which no \<open>err != nil\<close> test of the source ever sees.
\<close>

datatype error =
    MalformedCommand string  \<comment> \<open>\<open>fmt.Errorf("unclosed quote in command: %s", command)\<close>\<close>
  | IOError string           \<comment> \<open>\<open>os.Stat\<close> failed on this path\<close>
  | ProcessError string      \<comment> \<open>an error of \<open>exec.Command(...).Output()\<close>\<close>
  | GlobError string         \<comment> \<open>an error of \<open>fs.Glob\<close>\<close>
  | ConfigSyntaxError string \<comment> \<open>an error of \<open>yaml.Unmarshal\<close>\<close>
  | CacheError string        \<comment> \<open>an error of \<open>fs.WriteFile\<close> or of the gob encoder\<close>
  | RuntimePanic string      \<comment> \<open>a Go runtime panic\<close>

fun is_panic :: "error \<Rightarrow> bool" where
  "is_panic (RuntimePanic m) = True"
| "is_panic e = False"

section \<open>Command tokenizer (\<open>internal/util.go\<close>, \<open>ParseCommandLine\<close>)\<close>

text \<open>
  The source keeps the scanner state in the string variable \<open>state\<close>, which only ever holds
  \<open>"start"\<close>, \<open>"quotes"\<close> or \<open>"arg"\<close>.
\<close>

datatype scan_state = Start | Quotes | Arg

text \<open>
  \<open>command[i]\<close> is a byte, and \<open>string(c)\<close> of a byte is the UTF-8 encoding of the code
  point with that number: one byte below 128, two bytes from 128 on.
\<close>

definition byteString :: "char \<Rightarrow> string" where
  "byteString c =
     (let n = (of_char c :: nat)
      in if n < 128 then [c] else [char_of (192 + n div 64), char_of (128 + n mod 64)])"

record tokenizer =
  args :: "string list"
  state :: scan_state
  current :: string
  quote :: string
  escapeNext :: bool

text \<open>The values of the five variables before the loop; \<open>escapeNext\<close> starts as \<open>true\<close>.\<close>

definition tokenizer_init :: tokenizer where
  "tokenizer_init =
     \<lparr>args = [], state = Start, current = [], quote = [CHR 0x22], escapeNext = True\<rparr>"

text \<open>One iteration of the loop body, with the source's order of tests.\<close>

definition tokenizer_step :: "tokenizer \<Rightarrow> char \<Rightarrow> tokenizer" where
  "tokenizer_step t c =
     (if state t = Quotes then
        (if byteString c \<noteq> quote t then t\<lparr>current := current t @ byteString c\<rparr>
         else t\<lparr>args := args t @ [current t], current := [], state := Start\<rparr>)
      else if escapeNext t then t\<lparr>current := current t @ byteString c, escapeNext := False\<rparr>
      else if c = CHR 0x5C then t\<lparr>escapeNext := True\<rparr>
      else if c = CHR 0x22 \<or> c = CHR 0x27 then t\<lparr>state := Quotes, quote := byteString c\<rparr>
      else if state t = Arg then
        (if c = CHR '' '' \<or> c = CHR 0x09
         then t\<lparr>args := args t @ [current t], current := [], state := Start\<rparr>
         else t\<lparr>current := current t @ byteString c\<rparr>)
      else if c \<noteq> CHR '' '' \<and> c \<noteq> CHR 0x09
        then t\<lparr>state := Arg, current := current t @ byteString c\<rparr>
      else t)"

definition ParseCommandLine :: "string \<Rightarrow> error + string list" where
  "ParseCommandLine command =
     (let t = foldl tokenizer_step tokenizer_init command
      in if state t = Quotes then Inl (MalformedCommand command)
         else if current t \<noteq> [] then Inr (args t @ [current t])
         else Inr (args t))"

text \<open>
  A property of the scanner state used below: the first token, finished or still being
  collected, starts with the bytes \<open>b\<close>.
\<close>

fun first_token_starts :: "string \<Rightarrow> string list \<Rightarrow> string \<Rightarrow> bool" where
  "first_token_starts b [] cur = (take (length b) cur = b)"
| "first_token_starts b (a # rest) cur = (take (length b) a = b)"

section \<open>Library functions on strings and the process environment\<close>

text \<open>
  \<open>strings.Replace(s, old, new, -1)\<close>: every non-overlapping occurrence of \<open>old\<close>, from
  the left. The parser calls it only with a non-empty \<open>old\<close> (the literal \<open>{FILES}\<close>, or a
  matched token, which the caller tests against \<open>""\<close>); for an empty \<open>old\<close> this function
  returns \<open>s\<close>, a case the parser never reaches.
\<close>

fun Replace :: "string \<Rightarrow> string \<Rightarrow> string \<Rightarrow> string" where
  "Replace [] old new = []"
| "Replace (c # cs) old new =
     (if old \<noteq> [] \<and> take (length old) (c # cs) = old
      then new @ Replace (drop (length old - 1) cs) old new
      else c # Replace cs old new)"

text \<open>\<open>strings.Join(elems, sep)\<close>.\<close>

fun Join :: "string list \<Rightarrow> string \<Rightarrow> string" where
  "Join [] sep = []"
| "Join [x] sep = x"
| "Join (x # y # ys) sep = x @ sep @ Join (y # ys) sep"

text \<open>
  The process environment, with \<open>os.Getenv\<close> (an unset variable reads as the empty string)
  and \<open>os.Setenv\<close> (which refuses an empty name, a name with \<open>=\<close> or a NUL byte and a
  value with a NUL byte; every call site discards its error).
\<close>

type_synonym environ = "string \<rightharpoonup> string"

definition Getenv :: "environ \<Rightarrow> string \<Rightarrow> string" where
  "Getenv env k = (case env k of None \<Rightarrow> [] | Some v \<Rightarrow> v)"

definition Setenv :: "environ \<Rightarrow> string \<Rightarrow> string \<Rightarrow> environ" where
  "Setenv env k v =
     (if k = [] \<or> CHR ''='' \<in> set k \<or> CHR 0x00 \<in> set k \<or> CHR 0x00 \<in> set v then env
      else env(k \<mapsto> v))"

section \<open>Data model (\<open>Task\<close>, \<open>Global\<close>, \<open>Parser\<close>)\<close>

text \<open>
  Modelled from the spec: the type \<open>Options\<close>, which the parser and the executor read and
  whose declaration lies in another file of the repository. The record has the four
  fields they read: quiet mode, the force-dispatch option, watch mode and the forced
  clearing of the parser cache.
\<close>

record Options =
  Quiet :: bool
  Force :: bool
  Watch :: bool
  ClearCache :: bool

text \<open>
  The \<open>map[string]string\<close> fields are association lists: the order of the list stands for
  the order in which \<open>range\<close> happens to visit the map.
\<close>

record Task =
  Name :: string
  Files :: "string list"
  Run :: "string list"
  Env :: "(string \<times> string) list"

record Events =
  BeforeEachRun :: "string list"
  AfterEachRun :: "string list"
  BeforeEachTask :: "string list"
  AfterEachTask :: "string list"

record Shared =
  Environment :: "(string \<times> string) list"
  Events :: Events

record Global =
  Shared :: Shared

text \<open>The zero value of \<open>Global\<close>: what \<open>Parser{}\<close> holds before \<open>parseGlobal\<close> stores one.\<close>

definition zeroGlobal :: Global where
  "zeroGlobal =
     \<lparr>Shared = \<lparr>Environment = [],
        Events = \<lparr>BeforeEachRun = [], AfterEachRun = [],
                  BeforeEachTask = [], AfterEachTask = []\<rparr>\<rparr>\<rparr>"

text \<open>
  The parser. Its field \<open>fs\<close> (the \<open>FileSystem\<close> interface) is part of the record \<open>OS\<close>
  below, which every operation takes as a parameter.
\<close>

record Parser =
  Tasks :: "string \<rightharpoonup> Task"
  FilePaths :: "string list"
  config :: string
  options :: Options
  Global :: Global

section \<open>The operating system and the libraries, as parameters\<close>

text \<open>
  What the code asks of the operating system, of the \<open>FileSystem\<close> interface and of the
  yaml, gob and string libraries. The answers are fixed for one run.
\<close>

record OS =
  Stat :: "string \<Rightarrow> int option"
    \<comment> \<open>\<open>os.Stat(f)\<close>: \<open>None\<close> is \<open>(nil, err)\<close>, \<open>Some t\<close> has \<open>ModTime().Unix() = t\<close>\<close>
  Exec :: "environ \<Rightarrow> string \<Rightarrow> string list \<Rightarrow> error + string"
    \<comment> \<open>\<open>exec.Command(name, args...).Output()\<close>\<close>
  ExpandEnv :: "environ \<Rightarrow> string \<Rightarrow> string"  \<comment> \<open>\<open>os.ExpandEnv\<close>\<close>
  TrimSpace :: "string \<Rightarrow> string"  \<comment> \<open>\<open>strings.TrimSpace\<close>\<close>
  Glob :: "string \<Rightarrow> error + string list"  \<comment> \<open>\<open>fs.Glob\<close>\<close>
  FileExists :: "string \<Rightarrow> bool"  \<comment> \<open>\<open>fs.FileExists\<close>\<close>
  WriteFile :: "string \<Rightarrow> string \<Rightarrow> error option"  \<comment> \<open>\<open>fs.WriteFile(name, data, 0644)\<close>\<close>
  TempDir :: string  \<comment> \<open>\<open>fs.TempDir()\<close>\<close>
  Getwd :: string  \<comment> \<open>\<open>fs.Getwd()\<close>, whose error the code discards\<close>
  PathJoin :: "string \<Rightarrow> string \<Rightarrow> string"  \<comment> \<open>\<open>path.Join\<close>\<close>
  YamlGlobal :: "string \<Rightarrow> error + Global"  \<comment> \<open>\<open>yaml.Unmarshal\<close> into a \<open>Global\<close>\<close>
  YamlTasks :: "string \<Rightarrow> error + (string \<times> Task) list"
    \<comment> \<open>\<open>yaml.Unmarshal\<close> into a \<open>taskList\<close>, in the order \<open>range\<close> visits it\<close>
  GobEncode :: "Parser \<Rightarrow> error + string"
    \<comment> \<open>the gob encoding of the parser, in base64 (\<open>GOBSerialize\<close>)\<close>

section \<open>Config parser (\<open>Parser\<close>)\<close>

subsection \<open>\<open>parseSystemCmd\<close>\<close>

text \<open>
  The first match of \<open>osCommandRegexp\<close>, \<open>\$\((.+)\)\<close>, the only expression any caller
  passes. A match starts at the leftmost \<open>$(\<close> that is followed, on the same line, by at
  least one byte and then a closing parenthesis; \<open>.+\<close> is greedy, so the group runs to the
  last closing parenthesis of that line. \<open>regexGroup\<close> looks for the group in the text
  that follows a \<open>$(\<close>.
\<close>

definition regexGroup :: "string \<Rightarrow> string option" where
  "regexGroup rest =
     (case dropWhile (\<lambda>c. c \<noteq> CHR '')'') (rev (takeWhile (\<lambda>c. c \<noteq> CHR 0x0A) rest)) of
        [] \<Rightarrow> None
      | c # r \<Rightarrow> if r = [] then None else Some (rev r))"

fun regexFind :: "string \<Rightarrow> (string \<times> string) option" where
  "regexFind [] = None"
| "regexFind [c] = None"
| "regexFind (c # d # cs) =
     (if c = CHR ''$'' \<and> d = CHR ''(''
      then (case regexGroup cs of
              Some g \<Rightarrow> Some (''$('' @ g @ '')'', g)
            | None \<Rightarrow> regexFind (d # cs))
      else regexFind (d # cs))"

definition parseSystemCmd :: "string \<Rightarrow> string \<times> string" where
  "parseSystemCmd str = (case regexFind str of Some m \<Rightarrow> m | None \<Rightarrow> ([], []))"

text \<open>
  For the statements about the first match: the expression matches at the head of \<open>s\<close>,
  that is, \<open>s\<close> starts with \<open>$(\<close>, and on the same line at least one byte and then a
  closing parenthesis follow.
\<close>

definition regexMatchesAt :: "string \<Rightarrow> bool" where
  "regexMatchesAt s =
     (case s of
        c # d # cs \<Rightarrow>
          c = CHR ''$'' \<and> d = CHR ''(''
          \<and> CHR '')'' \<in> set (tl (takeWhile (\<lambda>x. x \<noteq> CHR 0x0A) cs))
      | _ \<Rightarrow> False)"

subsection \<open>\<open>replaceEnvironmentVariables\<close>\<close>

text \<open>The string pointer of the source is the argument and the result.\<close>

definition replaceEnvironmentVariables :: "environ \<Rightarrow> string \<Rightarrow> string" where
  "replaceEnvironmentVariables env str =
     (let resolved = str; (raw, name) = parseSystemCmd resolved
      in if raw \<noteq> [] \<and> name \<noteq> [] then Replace resolved raw (Getenv env name) else str)"

subsection \<open>\<open>expandFilePaths\<close>\<close>

definition expandFilePaths :: "OS \<Rightarrow> string \<Rightarrow> error + string list" where
  "expandFilePaths os file =
     (if CHR ''*'' \<in> set file then
        (case Glob os file of Inl err \<Rightarrow> Inl err | Inr files \<Rightarrow> Inr files)
      else if FileExists os file then Inr [file]
      else Inr [])"

subsection \<open>\<open>setEnvVariables\<close>\<close>

text \<open>
  The loop over \<open>vars\<close>, with \<open>retVars\<close> and the process environment as its state. The
  result is \<open>retVars\<close>, the error, and the environment the calls of \<open>os.Setenv\<close> left.
  \<open>splitCmd[0]\<close> panics when the tokenizer returned no token.
\<close>

fun setEnvVariables_loop ::
  "OS \<Rightarrow> (string \<times> string) list \<Rightarrow> (string \<times> string) list \<Rightarrow> environ
     \<Rightarrow> (string \<times> string) list \<times> error option \<times> environ" where
  "setEnvVariables_loop os [] retVars env = (retVars, None, env)"
| "setEnvVariables_loop os ((k, v) # vars) retVars env =
     (let cmd = snd (parseSystemCmd v)
      in if cmd = [] then
           setEnvVariables_loop os vars (AList.update k v retVars) (Setenv env k v)
         else
           (case ParseCommandLine (ExpandEnv os env cmd) of
              Inl err \<Rightarrow> (retVars, Some err, env)
            | Inr [] \<Rightarrow> (retVars, Some (RuntimePanic ''index out of range [0] with length 0''), env)
            | Inr (prog # rest) \<Rightarrow>
                (case Exec os env prog rest of
                   Inl err \<Rightarrow> (retVars, Some err, env)
                 | Inr out \<Rightarrow>
                     (let outStr = TrimSpace os out
                      in setEnvVariables_loop os vars (AList.update k outStr retVars)
                           (Setenv env k outStr)))))"

definition setEnvVariables ::
  "OS \<Rightarrow> environ \<Rightarrow> (string \<times> string) list
     \<Rightarrow> (string \<times> string) list \<times> error option \<times> environ" where
  "setEnvVariables os env vars = setEnvVariables_loop os vars [] env"

subsection \<open>\<open>parseGlobal\<close>\<close>

text \<open>
  The result is the returned error, the parser and the environment. When
  \<open>setEnvVariables\<close> returns an error the source returns \<open>nil\<close>; a panic is not an error
  value and goes on unwinding.
\<close>

definition parseGlobal :: "OS \<Rightarrow> Parser \<Rightarrow> environ \<Rightarrow> error option \<times> Parser \<times> environ" where
  "parseGlobal os p env =
     (case YamlGlobal os (config p) of
        Inl err \<Rightarrow> (Some err, p, env)
      | Inr g \<Rightarrow>
          (case setEnvVariables os env (Environment (Shared g)) of
             (vars, Some err, env') \<Rightarrow> (if is_panic err then Some err else None, p, env')
           | (vars, None, env') \<Rightarrow>
               (None, p\<lparr>Global := g\<lparr>Shared := (Shared g)\<lparr>Environment := vars\<rparr>\<rparr>\<rparr>, env')))"

subsection \<open>\<open>parseTasks\<close>\<close>

text \<open>The loop over \<open>c.Files\<close>: the expanded paths of one task, or the first error.\<close>

fun parseTasks_files :: "OS \<Rightarrow> environ \<Rightarrow> string list \<Rightarrow> error + string list" where
  "parseTasks_files os env [] = Inr []"
| "parseTasks_files os env (f # fs) =
     (case expandFilePaths os (replaceEnvironmentVariables env f) of
        Inl err \<Rightarrow> Inl err
      | Inr expanded \<Rightarrow>
          (case parseTasks_files os env fs of
             Inl err \<Rightarrow> Inl err
           | Inr filePaths \<Rightarrow> Inr (expanded @ filePaths)))"

text \<open>The loop over \<open>c.Run\<close>, after \<open>c.Files\<close> has become the expanded list.\<close>

definition parseTasks_run :: "environ \<Rightarrow> string list \<Rightarrow> string list \<Rightarrow> string list" where
  "parseTasks_run env files run =
     map (\<lambda>r. replaceEnvironmentVariables env (Replace r ''{FILES}'' (Join files '' ''))) run"

text \<open>
  The loop over the task table, with the table, \<open>allFilesPaths\<close> and the environment as
  its state.
\<close>

fun parseTasks_loop ::
  "OS \<Rightarrow> (string \<times> Task) list \<Rightarrow> (string \<rightharpoonup> Task) \<Rightarrow> string list \<Rightarrow> environ
     \<Rightarrow> (error + (string \<rightharpoonup> Task) \<times> string list) \<times> environ" where
  "parseTasks_loop os [] tasks allFilesPaths env = (Inr (tasks, allFilesPaths), env)"
| "parseTasks_loop os ((k, c) # rest) tasks allFilesPaths env =
     (case parseTasks_files os env (Files c) of
        Inl err \<Rightarrow> (Inl err, env)
      | Inr filePaths \<Rightarrow>
          (let c1 = c\<lparr>Files := filePaths, Run := parseTasks_run env filePaths (Run c)\<rparr>
           in if Env c1 \<noteq> [] then
                (case setEnvVariables os env (Env c1) of
                   (vars, Some err, env') \<Rightarrow> (Inl err, env')
                 | (vars, None, env') \<Rightarrow>
                     parseTasks_loop os rest (tasks(k \<mapsto> c1\<lparr>Env := vars, Name := k\<rparr>))
                       (allFilesPaths @ filePaths) env')
              else
                parseTasks_loop os rest (tasks(k \<mapsto> c1\<lparr>Name := k\<rparr>))
                  (allFilesPaths @ filePaths) env))"

definition parseTasks :: "OS \<Rightarrow> Parser \<Rightarrow> environ \<Rightarrow> error option \<times> Parser \<times> environ" where
  "parseTasks os p env =
     (case YamlTasks os (config p) of
        Inl err \<Rightarrow> (Some err, p, env)
      | Inr tasks \<Rightarrow>
          (case parseTasks_loop os tasks (map_of tasks) [] env of
             (Inl err, env') \<Rightarrow> (Some err, p, env')
           | (Inr (tasks', allFilesPaths), env') \<Rightarrow>
               (None, p\<lparr>FilePaths := allFilesPaths, Tasks := tasks'\<rparr>, env')))"

subsection \<open>\<open>Bootstrap\<close>\<close>

definition getTempFileName :: "OS \<Rightarrow> string" where
  "getTempFileName os = ''goke-'' @ Replace (Getwd os) ''/'' ''-''"

text \<open>
  How \<open>Bootstrap\<close> ends: \<open>log.Fatal\<close> prints the error and exits with status 1; a panic
  ends the process; otherwise it returns, leaving the parser, the environment and the
  files it wrote.
\<close>

datatype bootstrap_result =
    Fatal error
  | Panicked error
  | Returned Parser environ "(string \<times> string) list"

definition Bootstrap_write :: "OS \<Rightarrow> Parser \<Rightarrow> environ \<Rightarrow> bootstrap_result" where
  "Bootstrap_write os p env =
     (case GobEncode os p of
        Inl err \<Rightarrow> Fatal err
      | Inr pStr \<Rightarrow>
          (let name = PathJoin os (TempDir os) (getTempFileName os)
           in case WriteFile os name pStr of
                Some err \<Rightarrow> if \<not> Quiet (options p) then Fatal err else Returned p env []
              | None \<Rightarrow> Returned p env [(name, pStr)]))"

definition Bootstrap_tasks :: "OS \<Rightarrow> Parser \<Rightarrow> environ \<Rightarrow> bootstrap_result" where
  "Bootstrap_tasks os p env =
     (case parseTasks os p env of
        (Some err, p', env') \<Rightarrow>
          if is_panic err then Panicked err
          else if \<not> Quiet (options p') then Fatal err
          else Bootstrap_write os p' env'
      | (None, p', env') \<Rightarrow> Bootstrap_write os p' env')"

text \<open>\<open>parserString\<close> is the package variable that \<open>NewParser\<close> sets on a cache hit.\<close>

definition Bootstrap :: "OS \<Rightarrow> string \<Rightarrow> Parser \<Rightarrow> environ \<Rightarrow> bootstrap_result" where
  "Bootstrap os parserString p env =
     (if parserString \<noteq> [] then Returned p env []
      else
        (case parseGlobal os p env of
           (Some err, p', env') \<Rightarrow>
             if is_panic err then Panicked err
             else if \<not> Quiet (options p') then Fatal err
             else Bootstrap_tasks os p' env'
         | (None, p', env') \<Rightarrow> Bootstrap_tasks os p' env'))"

section \<open>Change cache and result channel\<close>

text \<open>
  Modelled from the spec: the \<open>Lockfile\<close> type with \<open>GetCurrentProject\<close> and
  \<open>UpdateTimestampsForFiles\<close>, which the executor calls and which are defined in another
  file of the repository. The spec:
  the cache is keyed by project identity (derived from the working directory), and its
  value maps a file path to the last-seen Unix modification time;
  \<open>currentProjectTimestamps\<close> returns the timestamps of the active project, the empty
  mapping if none is recorded; \<open>updateTimestamps(files)\<close> sets the stored timestamp of each
  given path to that path's current modification time. The spec is silent on a path that
  cannot be stat'd during the update; this model leaves its entry as it is.
\<close>

type_synonym Lockfile = "string \<rightharpoonup> (string \<rightharpoonup> int)"

definition GetCurrentProject :: "OS \<Rightarrow> Lockfile \<Rightarrow> (string \<rightharpoonup> int)" where
  "GetCurrentProject os l = (case l (Getwd os) of None \<Rightarrow> Map.empty | Some m \<Rightarrow> m)"

definition UpdateTimestampsForFiles :: "OS \<Rightarrow> string list \<Rightarrow> Lockfile \<Rightarrow> Lockfile" where
  "UpdateTimestampsForFiles os files l =
     l(Getwd os \<mapsto>
         foldl (\<lambda>m f. case Stat os f of None \<Rightarrow> m | Some t \<Rightarrow> m(f \<mapsto> t))
           (GetCurrentProject os l) files)"

text \<open>\<open>lockedModTimes[f]\<close>: a Go map yields the zero value for a key it does not hold.\<close>

definition lockedModTime :: "(string \<rightharpoonup> int) \<Rightarrow> string \<Rightarrow> int" where
  "lockedModTime lockedModTimes f = (case lockedModTimes f of None \<Rightarrow> 0 | Some t \<Rightarrow> t)"

text \<open>
  Modelled from the spec: \<open>Ref\<close> and \<open>NewRef\<close>, which the executor uses and which are
  defined in another file of the repository; the spec calls it a one-shot container
  carrying either a value or an error.
\<close>

datatype 'a Ref = NewRef (Value: 'a) (Error: "error option")

section \<open>Dispatch engine (\<open>internal/executor.go\<close>)\<close>

record Executor =
  parser :: Parser
  lockfile :: Lockfile
  options :: Options

subsection \<open>\<open>shouldDispatchRoutine\<close> and \<open>shouldDispatch\<close>\<close>

text \<open>
  The goroutine sends on an unbuffered channel from which \<open>shouldDispatch\<close> receives once,
  so the caller sees exactly the first value sent. What the goroutine does after that
  send is the second component: after \<open>NewRef(true, nil)\<close> it returns, after the last
  file it sends \<open>NewRef(false, nil)\<close> and returns; after the error of a failed \<open>os.Stat\<close>
  there is no \<open>return\<close>, and the next statement calls \<open>fo.ModTime()\<close> on the nil
  \<open>FileInfo\<close> that \<open>os.Stat\<close> returns with an error.
\<close>

datatype routine_end = Returns | NilDereference

fun shouldDispatchRoutine_loop ::
  "OS \<Rightarrow> (string \<rightharpoonup> int) \<Rightarrow> string list \<Rightarrow> bool Ref \<times> routine_end" where
  "shouldDispatchRoutine_loop os lockedModTimes [] = (NewRef False None, Returns)"
| "shouldDispatchRoutine_loop os lockedModTimes (f # fs) =
     (case Stat os f of
        None \<Rightarrow> (NewRef False (Some (IOError f)), NilDereference)
      | Some modTimeNow \<Rightarrow>
          if lockedModTime lockedModTimes f < modTimeNow then (NewRef True None, Returns)
          else shouldDispatchRoutine_loop os lockedModTimes fs)"

definition shouldDispatchRoutine :: "OS \<Rightarrow> Executor \<Rightarrow> Task \<Rightarrow> bool Ref \<times> routine_end" where
  "shouldDispatchRoutine os e task =
     shouldDispatchRoutine_loop os (GetCurrentProject os (lockfile e)) (Files task)"

text \<open>The result of \<open>shouldDispatch\<close>, and the executor with the lockfile it leaves.\<close>

definition shouldDispatch :: "OS \<Rightarrow> Executor \<Rightarrow> Task \<Rightarrow> (error + bool) \<times> Executor" where
  "shouldDispatch os e task =
     (if length (Files task) = 0 then (Inr True, e)
      else
        (let dispatch = fst (shouldDispatchRoutine os e task)
         in case Error dispatch of
              Some err \<Rightarrow> (Inl err, e)
            | None \<Rightarrow>
                if Value dispatch
                then (Inr True,
                      e\<lparr>lockfile := UpdateTimestampsForFiles os (Files task) (lockfile e)\<rparr>)
                else (Inr False, e)))"

subsection \<open>\<open>runSysCommand\<close>\<close>

text \<open>\<open>splitCmd[0]\<close> panics when the command has no token.\<close>

definition runSysCommand :: "OS \<Rightarrow> environ \<Rightarrow> string \<Rightarrow> string Ref" where
  "runSysCommand os env c =
     (case ParseCommandLine (ExpandEnv os env c) of
        Inl err \<Rightarrow> NewRef [] (Some err)
      | Inr [] \<Rightarrow> NewRef [] (Some (RuntimePanic ''index out of range [0] with length 0''))
      | Inr (prog # rest) \<Rightarrow>
          (case Exec os env prog rest of
             Inl err \<Rightarrow> NewRef [] (Some err)
           | Inr out \<Rightarrow> NewRef ([CHR 0x0A] @ out @ [CHR 0x0A]) None))"

subsection \<open>\<open>dispatchTask\<close> and \<open>runSysOrRecurse\<close>\<close>

text \<open>
  A run yields the error it returned (\<open>None\<close> for \<open>nil\<close>) and the command strings it handed
  to \<open>runSysCommand\<close>, in order. The two functions call each other without bound (a task
  may name itself), so the recursion carries fuel, and \<open>None\<close> means the fuel ran out.
  The spinner and the printing of the output are not modelled.
\<close>

type_synonym run_result = "(error option \<times> string list) option"

text \<open>Sequencing: the second run happens only if the first returned \<open>nil\<close>.\<close>

definition and_then :: "run_result \<Rightarrow> run_result \<Rightarrow> run_result" where
  "and_then a b =
     (case a of
        None \<Rightarrow> None
      | Some (Some err, tr) \<Rightarrow> Some (Some err, tr)
      | Some (None, tr) \<Rightarrow>
          (case b of None \<Rightarrow> None | Some (r, tr') \<Rightarrow> Some (r, tr @ tr')))"

text \<open>A \<open>for ... range\<close> loop that returns at the first error.\<close>

fun for_each :: "(string \<Rightarrow> run_result) \<Rightarrow> string list \<Rightarrow> run_result" where
  "for_each f [] = Some (None, [])"
| "for_each f (c # cs) = and_then (f c) (for_each f cs)"

text \<open>
  The bodies of the two functions, with the recursive call \<open>e.dispatchTask\<close> as the
  parameter \<open>rec\<close>.
\<close>

definition runSysOrRecurse_body ::
  "(Task \<Rightarrow> bool \<Rightarrow> run_result) \<Rightarrow> OS \<Rightarrow> environ \<Rightarrow> Executor \<Rightarrow> string \<Rightarrow> run_result" where
  "runSysOrRecurse_body rec os env e cmd =
     (case Tasks (parser e) cmd of
        Some task \<Rightarrow> rec task False
      | None \<Rightarrow> Some (Error (runSysCommand os env cmd), [cmd]))"

definition dispatchTask_body ::
  "(Task \<Rightarrow> bool \<Rightarrow> run_result) \<Rightarrow> OS \<Rightarrow> environ \<Rightarrow> Executor \<Rightarrow> Task \<Rightarrow> bool
     \<Rightarrow> run_result" where
  "dispatchTask_body rec os env e task initialRun =
     (let events = Events (Shared (Global (parser e)));
          run = runSysOrRecurse_body rec os env e
      in and_then
           (if initialRun then for_each run (BeforeEachTask events) else Some (None, []))
        (and_then
           (for_each
              (\<lambda>mainCmd.
                 and_then
                   (if initialRun then for_each run (BeforeEachRun events) else Some (None, []))
                (and_then (run mainCmd)
                   (if initialRun then for_each run (AfterEachRun events) else Some (None, []))))
              (Run task))
           (for_each run (AfterEachTask events))))"

fun dispatchTask ::
  "nat \<Rightarrow> OS \<Rightarrow> environ \<Rightarrow> Executor \<Rightarrow> Task \<Rightarrow> bool \<Rightarrow> run_result" where
  "dispatchTask 0 os env e task initialRun = None"
| "dispatchTask (Suc n) os env e task initialRun =
     dispatchTask_body (dispatchTask n os env e) os env e task initialRun"

definition runSysOrRecurse ::
  "nat \<Rightarrow> OS \<Rightarrow> environ \<Rightarrow> Executor \<Rightarrow> string \<Rightarrow> run_result" where
  "runSysOrRecurse n os env e cmd = runSysOrRecurse_body (dispatchTask n os env e) os env e cmd"

subsection \<open>\<open>checkAndDispatch\<close>\<close>

text \<open>
  The executor as \<open>checkAndDispatch\<close> leaves it, and what it returned: the error or the
  flag, with the commands run; \<open>None\<close> when the fuel of the dispatch ran out. The local
  variable \<open>shouldDispatch\<close> of the source is \<open>should\<close> here.
\<close>

definition checkAndDispatch ::
  "nat \<Rightarrow> OS \<Rightarrow> environ \<Rightarrow> Executor \<Rightarrow> Task
     \<Rightarrow> Executor \<times> ((error + bool) \<times> string list) option" where
  "checkAndDispatch n os env e task =
     (case shouldDispatch os e task of
        (Inl err, e') \<Rightarrow> (e', Some (Inl err, []))
      | (Inr should, e') \<Rightarrow>
          if should \<or> Force (options e') then
            (case dispatchTask n os env e' task True of
               None \<Rightarrow> (e', None)
             | Some (Some err, tr) \<Rightarrow> (e', Some (Inl err, tr))
             | Some (None, tr) \<Rightarrow> (e', Some (Inr (should \<or> Force (options e')), tr)))
          else (e', Some (Inr False, [])))"

section \<open>The substitution as the specification words it\<close>

text \<open>
  The specification says of a token \<open>$(<command>)\<close> in a file pattern or a run command:
  it is resolved by running \<open><command>\<close> through the OS and the tokenizer, and replaced
  with the trimmed standard-output text. \<open>spec_substitute\<close> follows these words, to be
  compared with \<open>replaceEnvironmentVariables\<close>, which follows the source.
\<close>

definition spec_substitute :: "OS \<Rightarrow> environ \<Rightarrow> string \<Rightarrow> error + string" where
  "spec_substitute os env str =
     (let (raw, cmd) = parseSystemCmd str
      in if raw = [] \<or> cmd = [] then Inr str
         else
           (case ParseCommandLine cmd of
              Inl err \<Rightarrow> Inl err
            | Inr [] \<Rightarrow> Inl (MalformedCommand cmd)
            | Inr (prog # rest) \<Rightarrow>
                (case Exec os env prog rest of
                   Inl err \<Rightarrow> Inl err
                 | Inr out \<Rightarrow> Inr (Replace str raw (TrimSpace os out)))))"

section \<open>Sample configurations\<close>

text \<open>
  A small system on which the theorems below are instantiated: one file \<open>a.go\<close> with
  modification time 5, a program \<open>echo\<close> that prints its arguments, and no other program
  (every other command fails).
\<close>

definition sampleOS :: OS where
  "sampleOS =
     \<lparr>Stat = (\<lambda>f. if f = ''a.go'' then Some 5 else None),
      Exec = (\<lambda>env prog rest.
                if prog = ''echo'' then Inr (Join rest '' '' @ [CHR 0x0A])
                else Inl (ProcessError ''exit status 1'')),
      ExpandEnv = (\<lambda>env s. s),
      TrimSpace = (\<lambda>s. rev (dropWhile (\<lambda>c. c = CHR '' '' \<or> c = CHR 0x0A)
                      (rev (dropWhile (\<lambda>c. c = CHR '' '' \<or> c = CHR 0x0A) s)))),
      Glob = (\<lambda>pat. Inr []),
      FileExists = (\<lambda>f. f = ''a.go''),
      WriteFile = (\<lambda>name data. None),
      TempDir = ''/tmp'',
      Getwd = ''/w'',
      PathJoin = (\<lambda>a b. a @ ''/'' @ b),
      YamlGlobal = (\<lambda>cfg. Inr zeroGlobal),
      YamlTasks = (\<lambda>cfg. Inr []),
      GobEncode = (\<lambda>p. Inr ''gob'')\<rparr>"

definition loudOptions :: Options where
  "loudOptions = \<lparr>Quiet = False, Force = False, Watch = False, ClearCache = False\<rparr>"

definition quietOptions :: Options where
  "quietOptions = \<lparr>Quiet = True, Force = False, Watch = False, ClearCache = False\<rparr>"

text \<open>The parser as \<open>NewParser\<close> returns it when there is no cache file.\<close>

definition freshParser :: "Options \<Rightarrow> Parser" where
  "freshParser opts =
     \<lparr>Tasks = Map.empty, FilePaths = [], config = ''goke.yml'', options = opts,
      Global = zeroGlobal\<rparr>"

text \<open>A config whose task \<open>t\<close> has an \<open>env\<close> entry with a substitution command that fails.\<close>

definition failingEnvOS :: OS where
  "failingEnvOS =
     sampleOS\<lparr>YamlTasks := (\<lambda>cfg.
       Inr [(''t'', \<lparr>Name = [], Files = [], Run = [''echo t''],
                    Env = [(''K'', ''$(false)'')]\<rparr>)])\<rparr>"

text \<open>A config whose \<open>global.environment\<close> has such an entry, and one hook.\<close>

definition failingGlobal :: Global where
  "failingGlobal =
     \<lparr>Shared = \<lparr>Environment = [(''K'', ''$(false)'')],
        Events = \<lparr>BeforeEachRun = [], AfterEachRun = [],
                  BeforeEachTask = [''echo T1''], AfterEachTask = []\<rparr>\<rparr>\<rparr>"

definition failingGlobalOS :: OS where
  "failingGlobalOS = sampleOS\<lparr>YamlGlobal := (\<lambda>cfg. Inr failingGlobal)\<rparr>"

text \<open>A config whose task \<open>t\<close> has a substitution token in a file pattern and in a command.\<close>

definition substitutionOS :: OS where
  "substitutionOS =
     sampleOS\<lparr>YamlTasks := (\<lambda>cfg.
       Inr [(''t'', \<lparr>Name = [], Files = [''$(echo a.go)''], Run = [''say $(echo hi)''],
                    Env = []\<rparr>)])\<rparr>"

text \<open>
  An executor with the four hooks of the ordering scenario and four tasks: \<open>main\<close> with
  two commands, \<open>outer\<close> whose only command names the task \<open>inner\<close>, and \<open>broken\<close>, which
  watches \<open>a.go\<close> and whose command fails.
\<close>

definition sampleEvents :: Events where
  "sampleEvents =
     \<lparr>BeforeEachRun = [''echo B''], AfterEachRun = [''echo A''],
      BeforeEachTask = [''echo T1''], AfterEachTask = [''echo T2'']\<rparr>"

definition mainTask :: Task where
  "mainTask = \<lparr>Name = ''main'', Files = [], Run = [''echo C1'', ''echo C2''], Env = []\<rparr>"

definition outerTask :: Task where
  "outerTask = \<lparr>Name = ''outer'', Files = [], Run = [''inner''], Env = []\<rparr>"

definition innerTask :: Task where
  "innerTask = \<lparr>Name = ''inner'', Files = [], Run = [''echo c''], Env = []\<rparr>"

definition brokenTask :: Task where
  "brokenTask = \<lparr>Name = ''broken'', Files = [''a.go''], Run = [''false''], Env = []\<rparr>"

definition sampleExecutor :: Executor where
  "sampleExecutor =
     \<lparr>parser = (freshParser loudOptions)
        \<lparr>Tasks := [''main'' \<mapsto> mainTask, ''outer'' \<mapsto> outerTask, ''inner'' \<mapsto> innerTask,
                   ''broken'' \<mapsto> brokenTask],
         Global := \<lparr>Shared = \<lparr>Environment = [], Events = sampleEvents\<rparr>\<rparr>\<rparr>,
      lockfile = Map.empty,
      options = loudOptions\<rparr>"

text \<open>A task that watches a file that does not exist.\<close>

definition missingFileTask :: Task where
  "missingFileTask = \<lparr>Name = ''m'', Files = [''missing.go'', ''a.go''], Run = [], Env = []\<rparr>"

section \<open>Unfolding rules for evaluation\<close>

lemmas sample_defs = sampleOS_def loudOptions_def quietOptions_def freshParser_def
  sampleEvents_def mainTask_def outerTask_def innerTask_def brokenTask_def sampleExecutor_def
  missingFileTask_def zeroGlobal_def

lemmas tokenizer_defs = ParseCommandLine_def tokenizer_step_def tokenizer_init_def byteString_def

lemmas dispatch_defs = dispatchTask_body_def runSysOrRecurse_body_def and_then_def
  runSysCommand_def

lemmas parser_defs = parseTasks_def parseTasks_run_def expandFilePaths_def
  replaceEnvironmentVariables_def parseSystemCmd_def regexGroup_def parseGlobal_def
  setEnvVariables_def Getenv_def Setenv_def Bootstrap_def Bootstrap_tasks_def
  Bootstrap_write_def getTempFileName_def

section \<open>Properties of the tokenizer\<close>

lemma ParseCommandLine_example:
  "ParseCommandLine (''echo '' @ [CHR 0x22] @ ''a b'' @ [CHR 0x22] @ '' c'')
     = Inr [''echo'', ''a b'', ''c'']"
  by (simp add: tokenizer_defs)

lemma take_append_keep: "take (length b) xs = b \<Longrightarrow> take (length b) (xs @ ys) = b"
  by (metis append_eq_conv_conj append_take_drop_id append.assoc)

lemma first_token_starts_push:
  "first_token_starts b as cur \<Longrightarrow> first_token_starts b (as @ [cur]) cur'"
  by (cases as) simp_all

lemma first_token_starts_append:
  "first_token_starts b as cur \<Longrightarrow> first_token_starts b as (cur @ x)"
  by (cases as) (simp_all add: take_append_keep del: take_append)

lemma first_token_starts_step:
  "first_token_starts b (args t) (current t) \<Longrightarrow>
   first_token_starts b (args (tokenizer_step t c)) (current (tokenizer_step t c))"
  by (simp add: tokenizer_step_def first_token_starts_push first_token_starts_append)

lemma first_token_starts_foldl:
  "first_token_starts b (args t) (current t) \<Longrightarrow>
   first_token_starts b (args (foldl tokenizer_step t cs)) (current (foldl tokenizer_step t cs))"
  by (induction cs arbitrary: t) (simp_all add: first_token_starts_step)

text \<open>
  The first byte of every input is consumed by the initial \<open>escapeNext\<close>, whatever it is:
  it is copied into the token, and the scan goes on as if it had been escaped. So when
  the tokenizer returns tokens, the first of them starts with the first byte of the input,
  also when that byte is a quote, a backslash or a blank.
\<close>

lemma tokenizer_first_byte:
  "foldl tokenizer_step tokenizer_init (c # cs)
     = foldl tokenizer_step (tokenizer_init\<lparr>current := byteString c, escapeNext := False\<rparr>) cs"
  by (simp add: tokenizer_step_def tokenizer_init_def)

lemma ParseCommandLine_first_byte_literal:
  assumes "ParseCommandLine (c # cs) = Inr ts"
  shows "ts \<noteq> [] \<and> take (length (byteString c)) (hd ts) = byteString c"
proof -
  define t where "t = foldl tokenizer_step tokenizer_init (c # cs)"
  have s: "first_token_starts (byteString c) (args t) (current t)"
    unfolding t_def tokenizer_first_byte
    by (rule first_token_starts_foldl) (simp add: tokenizer_init_def)
  have b: "byteString c \<noteq> []"
    by (simp add: byteString_def Let_def)
  have ts: "ts = (if current t \<noteq> [] then args t @ [current t] else args t)"
    using assms unfolding ParseCommandLine_def Let_def t_def [symmetric]
    by (auto split: if_splits)
  show ?thesis
  proof (cases "args t")
    case Nil
    with s b have "current t \<noteq> []" by auto
    with Nil s ts show ?thesis by simp
  next
    case (Cons a rest)
    with s ts show ?thesis by simp
  qed
qed


text \<open>
  A quote that is reached with the scanner outside quotes and not after an escape, and
  whose closing quote never comes, is rejected: this holds at every position but the first.
\<close>

lemma byteString_neq: "c \<noteq> q \<Longrightarrow> byteString c \<noteq> [q]"
  by (simp add: byteString_def Let_def)

lemma quotes_stay_open:
  "state t = Quotes \<Longrightarrow> quote t = [q] \<Longrightarrow> q \<notin> set rest \<Longrightarrow>
   state (foldl tokenizer_step t rest) = Quotes"
proof (induction rest arbitrary: t)
  case Nil
  then show ?case by simp
next
  case (Cons c rest)
  then have "byteString c \<noteq> quote t"
    using byteString_neq [of c q] by auto
  with Cons.prems have "state (tokenizer_step t c) = Quotes \<and> quote (tokenizer_step t c) = [q]"
    by (simp add: tokenizer_step_def)
  with Cons show ?case by simp
qed

lemma ParseCommandLine_unclosed_quote:
  assumes "state (foldl tokenizer_step tokenizer_init pre) \<noteq> Quotes"
    and "\<not> escapeNext (foldl tokenizer_step tokenizer_init pre)"
    and "q = CHR 0x22 \<or> q = CHR 0x27"
    and "q \<notin> set rest"
  shows "ParseCommandLine (pre @ q # rest) = Inl (MalformedCommand (pre @ q # rest))"
proof -
  let ?t = "foldl tokenizer_step tokenizer_init pre"
  have "state (tokenizer_step ?t q) = Quotes \<and> quote (tokenizer_step ?t q) = [q]"
    using assms(1-3) by (auto simp: tokenizer_step_def byteString_def)
  then have "state (foldl tokenizer_step (tokenizer_step ?t q) rest) = Quotes"
    using assms(4) by (intro quotes_stay_open) auto
  then show ?thesis
    by (simp add: ParseCommandLine_def)
qed

text \<open>
  C8. The example of the claim holds (\<open>ParseCommandLine_example\<close>), but not every
  unterminated quote is rejected: since \<open>escapeNext\<close> starts as \<open>true\<close>, the first byte
  of the input is always copied into the token, so a quote that opens the input and is never
  closed is accepted, and the input \<open>"abc\<close> yields the single token \<open>"abc\<close>.
\<close>

theorem ParseCommandLine_leading_quote_accepted:
  "ParseCommandLine (CHR 0x22 # ''abc'') = Inr [CHR 0x22 # ''abc'']"
  by (simp add: tokenizer_defs)

text \<open>
  C9. A backslash that opens the input does not escape the byte after it: it is itself
  copied into the token (by the initial \<open>escapeNext\<close>), and the second byte is scanned as
  usual. The input of a backslash and \<open>a\<close> yields one token of these two bytes, not the
  token \<open>a\<close>; the input of a backslash, a blank and \<open>a\<close> yields the same token, the blank
  being skipped, not kept. A backslash anywhere later does escape: \<open>x\<close>, a backslash, a
  blank and \<open>a\<close> is the single token \<open>x a\<close>.
\<close>

theorem ParseCommandLine_leading_backslash_emitted:
  "ParseCommandLine (CHR 0x5C # ''a'') = Inr [CHR 0x5C # ''a'']
   \<and> ParseCommandLine (CHR 0x5C # '' a'') = Inr [CHR 0x5C # ''a'']
   \<and> ParseCommandLine (''x'' @ CHR 0x5C # '' a'') = Inr [''x a'']"
  by (simp add: tokenizer_defs)

section \<open>Properties of the dispatch decision\<close>

lemma shouldDispatchRoutine_loop_all_stat:
  "\<forall>f\<in>set fs. Stat os f = Some (modTime f) \<Longrightarrow>
   shouldDispatchRoutine_loop os m fs
     = (NewRef (\<exists>f\<in>set fs. lockedModTime m f < modTime f) None, Returns)"
  by (induction fs) auto

text \<open>
  C5. A task without files is always dispatched, whatever the cache holds. For a task
  with files that can all be stat'd, the decision is true exactly when some declared
  file's stored timestamp is below its current modification time, hence false when every
  stored timestamp is at least the current one. The stored timestamp is what the Go map
  yields: 0 for a path the cache does not hold.
\<close>

theorem shouldDispatch_decision:
  "(Files task = [] \<longrightarrow> fst (shouldDispatch os e task) = Inr True)
   \<and> (Files task \<noteq> [] \<and> (\<forall>f\<in>set (Files task). Stat os f = Some (modTime f)) \<longrightarrow>
        fst (shouldDispatch os e task)
          = Inr (\<exists>f\<in>set (Files task).
                   lockedModTime (GetCurrentProject os (lockfile e)) f < modTime f))"
proof (intro conjI impI)
  assume "Files task = []"
  then show "fst (shouldDispatch os e task) = Inr True"
    by (simp add: shouldDispatch_def)
next
  assume a: "Files task \<noteq> [] \<and> (\<forall>f\<in>set (Files task). Stat os f = Some (modTime f))"
  then have "shouldDispatchRoutine os e task
     = (NewRef (\<exists>f\<in>set (Files task).
                  lockedModTime (GetCurrentProject os (lockfile e)) f < modTime f) None, Returns)"
    unfolding shouldDispatchRoutine_def by (intro shouldDispatchRoutine_loop_all_stat) simp
  with a show "fst (shouldDispatch os e task)
          = Inr (\<exists>f\<in>set (Files task).
                   lockedModTime (GetCurrentProject os (lockfile e)) f < modTime f)"
    by (simp add: shouldDispatch_def)
qed

theorem shouldDispatch_decision_witness:
  "fst (shouldDispatch sampleOS sampleExecutor mainTask) = Inr True
   \<and> fst (shouldDispatch sampleOS sampleExecutor brokenTask) = Inr True
   \<and> fst (shouldDispatch sampleOS
             (sampleExecutor\<lparr>lockfile := [''/w'' \<mapsto> [''a.go'' \<mapsto> 5]]\<rparr>) brokenTask) = Inr False"
proof -
  have stat: "\<forall>f\<in>set (Files brokenTask). Stat sampleOS f = Some ((\<lambda>f. 5) f)"
    by (simp add: sample_defs)
  have 1: "fst (shouldDispatch sampleOS sampleExecutor mainTask) = Inr True"
    using shouldDispatch_decision [of mainTask sampleOS sampleExecutor "\<lambda>f. 5"]
    by (simp add: mainTask_def)
  have 2: "fst (shouldDispatch sampleOS sampleExecutor brokenTask) = Inr True"
    using shouldDispatch_decision [of brokenTask sampleOS sampleExecutor "\<lambda>f. 5"] stat
    by (simp add: brokenTask_def sampleExecutor_def sampleOS_def GetCurrentProject_def
        lockedModTime_def)
  have 3: "fst (shouldDispatch sampleOS
             (sampleExecutor\<lparr>lockfile := [''/w'' \<mapsto> [''a.go'' \<mapsto> 5]]\<rparr>) brokenTask) = Inr False"
    using shouldDispatch_decision [of brokenTask sampleOS
        "sampleExecutor\<lparr>lockfile := [''/w'' \<mapsto> [''a.go'' \<mapsto> 5]]\<rparr>" "\<lambda>f. 5"] stat
    by (simp add: brokenTask_def sampleExecutor_def sampleOS_def GetCurrentProject_def
        lockedModTime_def)
  from 1 2 3 show ?thesis by simp
qed

text \<open>
  When the scan reaches a file that cannot be stat'd (every file before it could, and none
  of those was stale), the value sent is the error for that path, and \<open>shouldDispatch\<close>
  returns it and leaves the cache alone. The goroutine, though, does not return.
\<close>

lemma shouldDispatchRoutine_loop_stat_fails:
  "\<forall>g\<in>set pre. \<exists>t. Stat os g = Some t \<and> \<not> lockedModTime m g < t \<Longrightarrow> Stat os f = None \<Longrightarrow>
   shouldDispatchRoutine_loop os m (pre @ f # post)
     = (NewRef False (Some (IOError f)), NilDereference)"
  by (induction pre) auto

lemma shouldDispatch_stat_fails:
  "\<forall>g\<in>set pre. \<exists>t. Stat os g = Some t
       \<and> \<not> lockedModTime (GetCurrentProject os (lockfile e)) g < t \<Longrightarrow>
   Stat os f = None \<Longrightarrow> Files task = pre @ f # post \<Longrightarrow>
   shouldDispatch os e task = (Inl (IOError f), e)"
  by (simp add: shouldDispatch_def shouldDispatchRoutine_def shouldDispatchRoutine_loop_stat_fails)

text \<open>
  C4. For a task whose first declared file does not exist, the scan sends the
  \<open>IOError\<close> for that path, and then, for want of a \<open>return\<close>, goes on in the loop body to
  \<open>fo.ModTime()\<close> with \<open>fo\<close> nil: it does not stop at the error, it ends in a nil
  dereference.
\<close>

theorem shouldDispatchRoutine_continues_after_error:
  "shouldDispatchRoutine sampleOS sampleExecutor missingFileTask
     = (NewRef False (Some (IOError ''missing.go'')), NilDereference)"
  by (simp add: shouldDispatchRoutine_def sample_defs)

section \<open>Properties of the cache update\<close>

lemma fst_checkAndDispatch:
  "fst (checkAndDispatch n os env e task) = snd (shouldDispatch os e task)"
  by (simp add: checkAndDispatch_def split: prod.splits sum.splits option.splits)

lemma foldl_update_timestamps:
  "\<forall>g\<in>set files. Stat os g = Some (modTime g) \<Longrightarrow> f \<in> set files \<or> m f = Some (modTime f) \<Longrightarrow>
   foldl (\<lambda>m f. case Stat os f of None \<Rightarrow> m | Some t \<Rightarrow> m(f \<mapsto> t)) m files f = Some (modTime f)"
  by (induction files arbitrary: m) auto

lemma GetCurrentProject_UpdateTimestampsForFiles:
  "\<forall>g\<in>set files. Stat os g = Some (modTime g) \<Longrightarrow> f \<in> set files \<Longrightarrow>
   GetCurrentProject os (UpdateTimestampsForFiles os files l) f = Some (modTime f)"
  by (simp add: GetCurrentProject_def UpdateTimestampsForFiles_def foldl_update_timestamps)

text \<open>
  C1, as the code has it. For a task with a non-empty files list whose files can all be
  stat'd, the cache is written by the dispatch decision, before any command runs: if some
  declared file is stale, then after \<open>checkAndDispatch\<close> the cache holds the current
  modification time of every declared file, and otherwise the cache is unchanged. This
  holds for every fuel, every outcome of the hooks and commands, and also when the
  dispatch does not return.
\<close>

theorem checkAndDispatch_updates_cache_at_decision:
  assumes files: "Files task \<noteq> []"
    and stat: "\<forall>f\<in>set (Files task). Stat os f = Some (modTime f)"
  shows "((\<exists>f\<in>set (Files task).
             lockedModTime (GetCurrentProject os (lockfile e)) f < modTime f) \<longrightarrow>
          (\<forall>f\<in>set (Files task).
             GetCurrentProject os (lockfile (fst (checkAndDispatch n os env e task))) f
               = Some (modTime f)))
      \<and> (\<not> (\<exists>f\<in>set (Files task).
               lockedModTime (GetCurrentProject os (lockfile e)) f < modTime f) \<longrightarrow>
          lockfile (fst (checkAndDispatch n os env e task)) = lockfile e)"
proof -
  have routine: "shouldDispatchRoutine os e task
     = (NewRef (\<exists>f\<in>set (Files task).
                  lockedModTime (GetCurrentProject os (lockfile e)) f < modTime f) None, Returns)"
    unfolding shouldDispatchRoutine_def using stat by (rule shouldDispatchRoutine_loop_all_stat)
  have "lockfile (snd (shouldDispatch os e task))
     = (if \<exists>f\<in>set (Files task).
              lockedModTime (GetCurrentProject os (lockfile e)) f < modTime f
        then UpdateTimestampsForFiles os (Files task) (lockfile e) else lockfile e)"
    using files by (simp add: shouldDispatch_def routine)
  then show ?thesis
    using stat by (simp add: fst_checkAndDispatch GetCurrentProject_UpdateTimestampsForFiles)
qed

text \<open>
  The witness is the task \<open>broken\<close>: its file is stale, its command fails, and the cache
  holds the file's modification time afterwards.
\<close>

theorem checkAndDispatch_updates_cache_at_decision_witness:
  "snd (checkAndDispatch 1 sampleOS Map.empty sampleExecutor brokenTask)
     = Some (Inl (ProcessError ''exit status 1''), [''echo T1'', ''echo B'', ''false''])
   \<and> GetCurrentProject sampleOS
        (lockfile (fst (checkAndDispatch 1 sampleOS Map.empty sampleExecutor brokenTask))) ''a.go''
       = Some 5"
proof -
  have files: "Files brokenTask \<noteq> []"
    by (simp add: brokenTask_def)
  have stat: "\<forall>f\<in>set (Files brokenTask). Stat sampleOS f = Some ((\<lambda>f. 5) f)"
    by (simp add: brokenTask_def sampleOS_def)
  have stale: "\<exists>f\<in>set (Files brokenTask).
      lockedModTime (GetCurrentProject sampleOS (lockfile sampleExecutor)) f < (\<lambda>f. 5) f"
    by (simp add: brokenTask_def sampleExecutor_def GetCurrentProject_def lockedModTime_def)
  have "GetCurrentProject sampleOS
        (lockfile (fst (checkAndDispatch 1 sampleOS Map.empty sampleExecutor brokenTask))) ''a.go''
       = Some 5"
    using checkAndDispatch_updates_cache_at_decision [OF files stat, of sampleExecutor 1 Map.empty]
      stale by (simp add: brokenTask_def)
  moreover have "snd (checkAndDispatch 1 sampleOS Map.empty sampleExecutor brokenTask)
     = Some (Inl (ProcessError ''exit status 1''), [''echo T1'', ''echo B'', ''false''])"
    by (simp add: checkAndDispatch_def shouldDispatch_def shouldDispatchRoutine_def
        GetCurrentProject_def lockedModTime_def UpdateTimestampsForFiles_def
        dispatch_defs sample_defs tokenizer_defs)
  ultimately show ?thesis by simp
qed

text \<open>
  C1 as stated fails: the dispatch of \<open>broken\<close> fails at its command \<open>false\<close>, yet the
  cache entry of \<open>a.go\<close>, absent before, holds the file's modification time afterwards, and
  the next decision for the same task is \<open>false\<close>: the failed task is not dispatched again.
\<close>

theorem failed_dispatch_changes_cache:
  "snd (checkAndDispatch 1 sampleOS Map.empty sampleExecutor brokenTask)
     = Some (Inl (ProcessError ''exit status 1''), [''echo T1'', ''echo B'', ''false''])
   \<and> GetCurrentProject sampleOS (lockfile sampleExecutor) ''a.go'' = None
   \<and> GetCurrentProject sampleOS
        (lockfile (fst (checkAndDispatch 1 sampleOS Map.empty sampleExecutor brokenTask))) ''a.go''
       = Some 5
   \<and> fst (shouldDispatch sampleOS
        (fst (checkAndDispatch 1 sampleOS Map.empty sampleExecutor brokenTask)) brokenTask)
       = Inr False"
  by (simp add: checkAndDispatch_def shouldDispatch_def shouldDispatchRoutine_def
        GetCurrentProject_def lockedModTime_def UpdateTimestampsForFiles_def
        dispatch_defs sample_defs tokenizer_defs)

section \<open>Properties of the dispatch\<close>

lemma and_then_ok: "and_then (Some (None, tr)) (Some (r, tr')) = Some (r, tr @ tr')"
  by (simp add: and_then_def)

lemma for_each_trace:
  "\<forall>c\<in>set cs. f c = Some (None, g c) \<Longrightarrow> for_each f cs = Some (None, concat (map g cs))"
  by (induction cs) (auto simp: and_then_def)

lemma runSysOrRecurse_body_sys:
  "Tasks (parser e) c = None \<Longrightarrow> Error (runSysCommand os env c) = None \<Longrightarrow>
   runSysOrRecurse_body rec os env e c = Some (None, [c])"
  by (simp add: runSysOrRecurse_body_def)

text \<open>
  A top-level dispatch in which no hook and no command names a task and every command
  succeeds: the commands run in the order of the source, with any fuel of at least one.
\<close>

lemma dispatchTask_initial_trace:
  assumes ev: "Events (Shared (Global (parser e))) = ev"
    and sys: "\<forall>c\<in>set (BeforeEachTask ev @ BeforeEachRun ev @ Run task @ AfterEachRun ev
                        @ AfterEachTask ev).
               Tasks (parser e) c = None \<and> Error (runSysCommand os env c) = None"
  shows "dispatchTask (Suc n) os env e task True
     = Some (None, BeforeEachTask ev
          @ concat (map (\<lambda>c. BeforeEachRun ev @ [c] @ AfterEachRun ev) (Run task))
          @ AfterEachTask ev)"
proof -
  let ?run = "runSysOrRecurse_body (dispatchTask n os env e) os env e"
  have one: "?run c = Some (None, [c])"
    if "c \<in> set (BeforeEachTask ev @ BeforeEachRun ev @ Run task @ AfterEachRun ev
                        @ AfterEachTask ev)" for c
    using that sys by (intro runSysOrRecurse_body_sys) auto
  have hooks: "for_each ?run cs = Some (None, cs)"
    if "set cs \<subseteq> set (BeforeEachTask ev @ BeforeEachRun ev @ Run task @ AfterEachRun ev
                        @ AfterEachTask ev)" for cs
    using for_each_trace [of cs ?run "\<lambda>c. [c]"] one that by auto
  have bt: "for_each ?run (BeforeEachTask ev) = Some (None, BeforeEachTask ev)"
    and br: "for_each ?run (BeforeEachRun ev) = Some (None, BeforeEachRun ev)"
    and ar: "for_each ?run (AfterEachRun ev) = Some (None, AfterEachRun ev)"
    and at: "for_each ?run (AfterEachTask ev) = Some (None, AfterEachTask ev)"
    by (auto intro!: hooks)
  have main: "for_each (\<lambda>mainCmd. and_then (Some (None, BeforeEachRun ev))
                  (and_then (?run mainCmd) (Some (None, AfterEachRun ev)))) (Run task)
     = Some (None, concat (map (\<lambda>c. BeforeEachRun ev @ [c] @ AfterEachRun ev) (Run task)))"
    by (rule for_each_trace) (simp add: one and_then_ok)
  show ?thesis
    by (simp add: dispatchTask_body_def Let_def ev bt br ar at main and_then_ok)
qed

text \<open>
  C6. With the hooks \<open>before_each_task = [T1]\<close>, \<open>before_each_run = [B]\<close>,
  \<open>after_each_run = [A]\<close>, \<open>after_each_task = [T2]\<close> and the run list \<open>[C1, C2]\<close>, where
  none of the six strings names a task and each runs without error, a top-level dispatch
  returns (with any fuel of at least one) with no error, having run exactly
  \<open>T1, B, C1, A, B, C2, A, T2\<close> in this order.
\<close>

theorem dispatchTask_hook_order:
  assumes "Events (Shared (Global (parser e)))
             = \<lparr>BeforeEachRun = [B], AfterEachRun = [A],
                BeforeEachTask = [T1], AfterEachTask = [T2]\<rparr>"
    and "Run task = [C1, C2]"
    and "\<forall>c\<in>{T1, B, C1, C2, A, T2}.
           Tasks (parser e) c = None \<and> Error (runSysCommand os env c) = None"
  shows "dispatchTask (Suc n) os env e task True = Some (None, [T1, B, C1, A, B, C2, A, T2])"
  using dispatchTask_initial_trace [OF assms(1), of task os env n] assms(2,3) by simp

theorem dispatchTask_hook_order_witness:
  "dispatchTask (Suc 0) sampleOS Map.empty sampleExecutor mainTask True
     = Some (None, [''echo T1'', ''echo B'', ''echo C1'', ''echo A'',
                    ''echo B'', ''echo C2'', ''echo A'', ''echo T2''])"
proof -
  have ev: "Events (Shared (Global (parser sampleExecutor)))
      = \<lparr>BeforeEachRun = [''echo B''], AfterEachRun = [''echo A''],
         BeforeEachTask = [''echo T1''], AfterEachTask = [''echo T2'']\<rparr>"
    by (simp add: sample_defs)
  have run: "Run mainTask = [''echo C1'', ''echo C2'']"
    by (simp add: mainTask_def)
  have sys: "\<forall>c\<in>{''echo T1'', ''echo B'', ''echo C1'', ''echo C2'', ''echo A'', ''echo T2''}.
      Tasks (parser sampleExecutor) c = None \<and> Error (runSysCommand sampleOS Map.empty c) = None"
    by (simp add: sample_defs runSysCommand_def tokenizer_defs)
  show ?thesis
    by (rule dispatchTask_hook_order [OF ev run sys])
qed

text \<open>
  A nested dispatch (\<open>initialRun = false\<close>) in which no command names a task and every
  command succeeds runs the task's commands and then the \<open>after_each_task\<close> hooks: the
  last loop of \<open>dispatchTask\<close> is the only hook loop outside \<open>if initialRun\<close>.
\<close>

lemma dispatchTask_nested_trace:
  assumes "\<forall>c\<in>set (Run task @ AfterEachTask (Events (Shared (Global (parser e))))).
               Tasks (parser e) c = None \<and> Error (runSysCommand os env c) = None"
  shows "dispatchTask (Suc n) os env e task False
     = Some (None, Run task @ AfterEachTask (Events (Shared (Global (parser e)))))"
proof -
  let ?run = "runSysOrRecurse_body (dispatchTask n os env e) os env e"
  have one: "?run c = Some (None, [c])"
    if "c \<in> set (Run task @ AfterEachTask (Events (Shared (Global (parser e)))))" for c
    using that assms by (intro runSysOrRecurse_body_sys) auto
  have hooks: "for_each ?run cs = Some (None, cs)"
    if "set cs \<subseteq> set (Run task @ AfterEachTask (Events (Shared (Global (parser e)))))" for cs
    using for_each_trace [of cs ?run "\<lambda>c. [c]"] one that by auto
  have main: "for_each (\<lambda>mainCmd. and_then (Some (None, []))
                  (and_then (?run mainCmd) (Some (None, [])))) (Run task)
     = Some (None, concat (map (\<lambda>c. [c]) (Run task)))"
    by (rule for_each_trace) (simp add: one and_then_ok)
  show ?thesis
    by (simp add: dispatchTask_body_def Let_def hooks main and_then_ok)
qed

text \<open>
  C2. The task \<open>outer\<close> has the single command \<open>inner\<close>, the name of a task whose single
  command is \<open>echo c\<close>. At that command the dispatch of \<open>outer\<close> runs \<open>echo c\<close> and then
  the \<open>after_each_task\<close> hook \<open>echo T2\<close> for the nested task, before the \<open>after_each_run\<close>
  hook and the \<open>after_each_task\<close> hook of \<open>outer\<close> itself: the hook runs twice.
\<close>

theorem dispatchTask_nested_runs_after_each_task:
  "dispatchTask 2 sampleOS Map.empty sampleExecutor outerTask True
   = Some (None, [''echo T1'', ''echo B'', ''echo c'', ''echo T2'', ''echo A'', ''echo T2''])"
  by (simp add: numeral_2_eq_2 dispatch_defs sample_defs tokenizer_defs)

section \<open>Properties of the substitution\<close>

text \<open>
  The match of the regular expression on a string with one token: nothing before the
  token has a dollar sign, the name is not empty and has no line feed, and nothing after
  the token has a closing parenthesis.
\<close>

lemma regexGroup_token:
  assumes "name \<noteq> []" "CHR 0x0A \<notin> set name" "CHR '')'' \<notin> set post"
  shows "regexGroup (name @ '')'' @ post) = Some name"
proof -
  let ?tp = "takeWhile (\<lambda>c. c \<noteq> CHR 0x0A) post"
  have line: "takeWhile (\<lambda>c. c \<noteq> CHR 0x0A) (name @ CHR '')'' # post) = name @ CHR '')'' # ?tp"
    using assms(2) by (subst takeWhile_append2) auto
  have "CHR '')'' \<notin> set ?tp"
    using assms(3) set_takeWhileD by fastforce
  then have "dropWhile (\<lambda>c. c \<noteq> CHR '')'') (rev ?tp @ CHR '')'' # rev name) = CHR '')'' # rev name"
    by (subst dropWhile_append2) auto
  then show ?thesis
    using assms(1) by (simp add: regexGroup_def line)
qed

lemma regexFind_skip:
  "CHR ''$'' \<notin> set pre \<Longrightarrow> regexFind (pre @ CHR ''$'' # CHR ''('' # rest)
     = regexFind (CHR ''$'' # CHR ''('' # rest)"
proof (induction pre)
  case Nil
  then show ?case by simp
next
  case (Cons c pre)
  then show ?case by (cases pre) auto
qed

lemma parseSystemCmd_token:
  assumes "CHR ''$'' \<notin> set pre" "name \<noteq> []" "CHR 0x0A \<notin> set name" "CHR '')'' \<notin> set post"
  shows "parseSystemCmd (pre @ ''$('' @ name @ '')'' @ post) = (''$('' @ name @ '')'', name)"
  using regexFind_skip [OF assms(1), of "name @ '')'' @ post"] regexGroup_token [OF assms(2-4)]
  by (simp add: parseSystemCmd_def)

text \<open>Three facts on \<open>Replace\<close>: no occurrence, an occurrence further on, an occurrence here.\<close>

lemma Replace_absent:
  "x \<in> set old \<Longrightarrow> x \<notin> set s \<Longrightarrow> Replace s old new = s"
proof (induction s)
  case Nil
  then show ?case by simp
next
  case (Cons c s)
  have "take (length old) (c # s) \<noteq> old"
  proof
    assume "take (length old) (c # s) = old"
    then have "set old \<subseteq> set (c # s)"
      by (metis set_take_subset)
    with Cons.prems show False by auto
  qed
  with Cons show ?case by simp
qed

lemma Replace_skip:
  "x \<notin> set pre \<Longrightarrow> Replace (pre @ s) (x # old) new = pre @ Replace s (x # old) new"
proof (induction pre)
  case Nil
  then show ?case by simp
next
  case (Cons c pre)
  then show ?case by auto
qed

lemma Replace_here:
  "old \<noteq> [] \<Longrightarrow> Replace (old @ s) old new = new @ Replace s old new"
  by (cases old) auto

lemma replaceEnvironmentVariables_reads_environment:
  assumes "CHR ''$'' \<notin> set pre" "name \<noteq> []" "CHR 0x0A \<notin> set name" "CHR '')'' \<notin> set post"
  shows "replaceEnvironmentVariables env (pre @ ''$('' @ name @ '')'' @ post)
     = pre @ Getenv env name @ post"
proof -
  have "Replace (pre @ (''$('' @ name @ '')'') @ post) (''$('' @ name @ '')'') (Getenv env name)
      = pre @ Getenv env name @ Replace post (''$('' @ name @ '')'') (Getenv env name)"
    using assms(1) Replace_skip [of "CHR ''$''" pre _ "''('' @ name @ '')''"]
      Replace_here [of "''$('' @ name @ '')''" post] by simp
  moreover have "Replace post (''$('' @ name @ '')'') (Getenv env name) = post"
    using assms(4) by (intro Replace_absent [of "CHR '')''"]) auto
  ultimately show ?thesis
    using parseSystemCmd_token [OF assms] assms(2)
    by (simp add: replaceEnvironmentVariables_def Let_def)
qed


lemma parseTasks_files_single:
  "parseTasks_files os env [f] = expandFilePaths os (replaceEnvironmentVariables env f)"
  by (simp split: sum.splits)

text \<open>
  A string with one token, no dollar sign before it and no closing parenthesis after it:
  the resolved string is what precedes the token, the value of the variable, and what
  follows; the file loop expands that string, and the run loop yields it when the command
  has no brace (so no \<open>{FILES}\<close>).
\<close>

lemma single_token_substitution:
  assumes "CHR ''$'' \<notin> set pre" "name \<noteq> []" "CHR 0x0A \<notin> set name" "CHR '')'' \<notin> set post"
  shows "replaceEnvironmentVariables env (pre @ ''$('' @ name @ '')'' @ post)
           = pre @ Getenv env name @ post
     \<and> parseTasks_files os env [pre @ ''$('' @ name @ '')'' @ post]
           = expandFilePaths os (pre @ Getenv env name @ post)
     \<and> (CHR ''{'' \<notin> set (pre @ name @ post) \<longrightarrow>
          parseTasks_run env files [pre @ ''$('' @ name @ '')'' @ post]
            = [pre @ Getenv env name @ post])"
proof -
  have r: "replaceEnvironmentVariables env (pre @ ''$('' @ name @ '')'' @ post)
           = pre @ Getenv env name @ post"
    using assms by (rule replaceEnvironmentVariables_reads_environment)
  have f: "parseTasks_files os env [pre @ ''$('' @ name @ '')'' @ post]
           = expandFilePaths os (pre @ Getenv env name @ post)"
    by (simp only: parseTasks_files_single r)
  have "parseTasks_run env files [pre @ ''$('' @ name @ '')'' @ post]
            = [pre @ Getenv env name @ post]"
    if "CHR ''{'' \<notin> set (pre @ name @ post)"
  proof -
    have "Replace (pre @ ''$('' @ name @ '')'' @ post) ''{FILES}'' (Join files '' '')
          = pre @ ''$('' @ name @ '')'' @ post"
      using that by (intro Replace_absent [of "CHR ''{''"]) auto
    then show ?thesis
      by (simp only: parseTasks_run_def list.map r)
  qed
  with r f show ?thesis
    by blast
qed

text \<open>
  The first match in general. \<open>regexGroup\<close> fails exactly when no group is available, and
  a group it returns is followed by the last closing parenthesis of its line;
  \<open>regexFind\<close> finds nothing exactly when the expression matches at no position, and
  what it finds starts at the leftmost position with a match.
\<close>

lemma regexGroup_None_iff:
  "regexGroup cs = None \<longleftrightarrow> CHR '')'' \<notin> set (tl (takeWhile (\<lambda>x. x \<noteq> CHR 0x0A) cs))"
proof -
  define line where "line = takeWhile (\<lambda>x. x \<noteq> CHR 0x0A) cs"
  have "(case dropWhile (\<lambda>c. c \<noteq> CHR '')'') (rev line) of
           [] \<Rightarrow> None | c # r \<Rightarrow> if r = [] then None else Some (rev r)) = None
        \<longleftrightarrow> CHR '')'' \<notin> set (tl line)"
  proof (cases line)
    case Nil
    then show ?thesis by simp
  next
    case (Cons a l)
    show ?thesis
    proof (cases "CHR '')'' \<in> set l")
      case True
      then have "dropWhile (\<lambda>c. c \<noteq> CHR '')'') (rev l @ [a])
          = dropWhile (\<lambda>c. c \<noteq> CHR '')'') (rev l) @ [a]"
        by (simp add: dropWhile_append1)
      moreover from True have "dropWhile (\<lambda>c. c \<noteq> CHR '')'') (rev l) \<noteq> []"
        by simp
      ultimately obtain c r where "dropWhile (\<lambda>c. c \<noteq> CHR '')'') (rev l @ [a]) = c # r @ [a]"
        by (cases "dropWhile (\<lambda>c. c \<noteq> CHR '')'') (rev l)") auto
      with True Cons show ?thesis by simp
    next
      case False
      then have "dropWhile (\<lambda>c. c \<noteq> CHR '')'') (rev l @ [a])
          = dropWhile (\<lambda>c. c \<noteq> CHR '')'') [a]"
        by (subst dropWhile_append2) auto
      with False Cons show ?thesis by simp
    qed
  qed
  then show ?thesis
    by (simp add: regexGroup_def line_def)
qed

lemma regexGroup_Some:
  assumes "regexGroup cs = Some g"
  shows "\<exists>post. cs = g @ '')'' @ post \<and> g \<noteq> [] \<and> CHR 0x0A \<notin> set g
           \<and> CHR '')'' \<notin> set (takeWhile (\<lambda>x. x \<noteq> CHR 0x0A) post)"
proof -
  define line where "line = takeWhile (\<lambda>x. x \<noteq> CHR 0x0A) cs"
  define rest where "rest = dropWhile (\<lambda>x. x \<noteq> CHR 0x0A) cs"
  define a where "a = takeWhile (\<lambda>c. c \<noteq> CHR '')'') (rev line)"
  have cs: "cs = line @ rest"
    by (simp add: line_def rest_def)
  have nl: "CHR 0x0A \<notin> set line"
    unfolding line_def by (auto dest: set_takeWhileD)
  have rest: "takeWhile (\<lambda>x. x \<noteq> CHR 0x0A) rest = []"
    unfolding rest_def by (induction cs) auto
  have A: "(case dropWhile (\<lambda>c. c \<noteq> CHR '')'') (rev line) of
              [] \<Rightarrow> None | c # r \<Rightarrow> if r = [] then None else Some (rev r)) = Some g"
    using assms by (simp add: regexGroup_def line_def)
  have "\<exists>c. dropWhile (\<lambda>c. c \<noteq> CHR '')'') (rev line) = c # rev g \<and> g \<noteq> []"
  proof (cases "dropWhile (\<lambda>c. c \<noteq> CHR '')'') (rev line)")
    case Nil
    show ?thesis
      using A unfolding Nil by simp
  next
    case (Cons c r)
    have "r \<noteq> [] \<and> rev r = g"
      using A unfolding Cons by (simp split: if_splits)
    then show ?thesis
      unfolding Cons by auto
  qed
  then obtain c where d: "dropWhile (\<lambda>c. c \<noteq> CHR '')'') (rev line) = c # rev g" and g: "g \<noteq> []"
    by blast
  have c: "c = CHR '')''"
    using hd_dropWhile [of "\<lambda>c. c \<noteq> CHR '')''" "rev line"] d by auto
  have "rev line = a @ c # rev g"
    using takeWhile_dropWhile_id [of "\<lambda>c. c \<noteq> CHR '')''" "rev line"] d by (simp add: a_def)
  then have "rev (rev line) = rev (a @ c # rev g)"
    by (simp only:)
  then have line: "line = g @ CHR '')'' # rev a"
    using c by simp
  have a: "CHR '')'' \<notin> set a"
    unfolding a_def by (auto dest: set_takeWhileD)
  have "takeWhile (\<lambda>x. x \<noteq> CHR 0x0A) (rev a @ rest) = rev a"
    using nl line rest by (subst takeWhile_append2) auto
  with a cs line nl g show ?thesis
    by (intro exI [of _ "rev a @ rest"]) auto
qed

lemma regexMatchesAt_Cons:
  "regexMatchesAt (c # d # cs) \<longleftrightarrow> c = CHR ''$'' \<and> d = CHR ''('' \<and> regexGroup cs \<noteq> None"
  by (simp add: regexMatchesAt_def regexGroup_None_iff)

lemma regexFind_None:
  "regexFind s = None \<Longrightarrow> k < length s \<Longrightarrow> \<not> regexMatchesAt (drop k s)"
proof (induction s arbitrary: k rule: regexFind.induct)
  case 1
  then show ?case by simp
next
  case (2 c)
  then show ?case by (simp add: regexMatchesAt_def)
next
  case (3 c d cs)
  show ?case
  proof (cases k)
    case 0
    with "3.prems" show ?thesis
      by (auto simp: regexMatchesAt_Cons split: if_splits option.splits)
  next
    case (Suc j)
    with "3.prems" "3.IH" show ?thesis
      by (auto split: if_splits option.splits)
  qed
qed

lemma regexFind_Some:
  "regexFind s = Some (raw, g) \<Longrightarrow>
   \<exists>pre post. s = pre @ ''$('' @ g @ '')'' @ post \<and> raw = ''$('' @ g @ '')''
     \<and> (\<forall>k<length pre. \<not> regexMatchesAt (drop k s))
     \<and> g \<noteq> [] \<and> CHR 0x0A \<notin> set g
     \<and> CHR '')'' \<notin> set (takeWhile (\<lambda>x. x \<noteq> CHR 0x0A) post)"
proof (induction s rule: regexFind.induct)
  case 1
  then show ?case by simp
next
  case (2 c)
  then show ?case by simp
next
  case (3 c d cs)
  show ?case
  proof (cases "c = CHR ''$'' \<and> d = CHR ''('' \<and> regexGroup cs \<noteq> None")
    case True
    then obtain g' where g': "regexGroup cs = Some g'" by auto
    with True "3.prems" have eq: "g' = g" "raw = ''$('' @ g @ '')''" by auto
    from regexGroup_Some [OF g'] eq obtain post where
      "cs = g @ '')'' @ post" "g \<noteq> []" "CHR 0x0A \<notin> set g"
      "CHR '')'' \<notin> set (takeWhile (\<lambda>x. x \<noteq> CHR 0x0A) post)"
      by auto
    with True eq show ?thesis
      by (intro exI [of _ "[]"] exI [of _ post]) simp
  next
    case False
    then have f: "regexFind (c # d # cs) = regexFind (d # cs)"
      by (auto split: option.splits)
    with "3.prems" have "regexFind (d # cs) = Some (raw, g)" by simp
    moreover have "\<exists>pre post. d # cs = pre @ ''$('' @ g @ '')'' @ post \<and> raw = ''$('' @ g @ '')''
     \<and> (\<forall>k<length pre. \<not> regexMatchesAt (drop k (d # cs)))
     \<and> g \<noteq> [] \<and> CHR 0x0A \<notin> set g
     \<and> CHR '')'' \<notin> set (takeWhile (\<lambda>x. x \<noteq> CHR 0x0A) post)"
      if "regexFind (d # cs) = Some (raw, g)"
      using that False "3.IH" by (auto split: option.splits)
    ultimately obtain pre post where p: "d # cs = pre @ ''$('' @ g @ '')'' @ post"
      "raw = ''$('' @ g @ '')''"
      "\<forall>k<length pre. \<not> regexMatchesAt (drop k (d # cs))"
      "g \<noteq> []" "CHR 0x0A \<notin> set g"
      "CHR '')'' \<notin> set (takeWhile (\<lambda>x. x \<noteq> CHR 0x0A) post)"
      by blast
    have 0: "\<not> regexMatchesAt (c # d # cs)"
      using False by (simp add: regexMatchesAt_Cons)
    have "\<forall>k<length (c # pre). \<not> regexMatchesAt (drop k (c # d # cs))"
    proof (intro allI impI)
      fix k assume "k < length (c # pre)"
      then show "\<not> regexMatchesAt (drop k (c # d # cs))"
        using 0 p(3) by (cases k) auto
    qed
    with p show ?thesis
      by (intro exI [of _ "c # pre"] exI [of _ post]) simp
  qed
qed


lemma regexGroup_greedy:
  assumes "name \<noteq> []" "CHR 0x0A \<notin> set name"
    and "CHR '')'' \<notin> set (takeWhile (\<lambda>x. x \<noteq> CHR 0x0A) post)"
  shows "regexGroup (name @ '')'' @ post) = Some name"
proof -
  let ?tp = "takeWhile (\<lambda>c. c \<noteq> CHR 0x0A) post"
  have line: "takeWhile (\<lambda>c. c \<noteq> CHR 0x0A) (name @ CHR '')'' # post) = name @ CHR '')'' # ?tp"
    using assms(2) by (subst takeWhile_append2) auto
  have "dropWhile (\<lambda>c. c \<noteq> CHR '')'') (rev ?tp @ CHR '')'' # rev name) = CHR '')'' # rev name"
    using assms(3) by (subst dropWhile_append2) auto
  then show ?thesis
    using assms(1) by (simp add: regexGroup_def line)
qed

lemma regexFind_leftmost:
  "\<forall>k<length pre. \<not> regexMatchesAt (drop k (pre @ c # t)) \<Longrightarrow>
   regexFind (pre @ c # t) = regexFind (c # t)"
proof (induction pre)
  case Nil
  then show ?case by simp
next
  case (Cons a pre)
  obtain d cs where dcs: "pre @ c # t = d # cs"
    by (cases "pre @ c # t") auto
  from Cons.prems have "\<not> regexMatchesAt (drop 0 ((a # pre) @ c # t))"
    by blast
  then have "\<not> regexMatchesAt (a # d # cs)"
    by (simp add: dcs)
  then have "regexFind (a # d # cs) = regexFind (d # cs)"
    by (auto simp: regexMatchesAt_Cons split: option.splits)
  moreover have "\<forall>k<length pre. \<not> regexMatchesAt (drop k (pre @ c # t))"
  proof (intro allI impI)
    fix k assume "k < length pre"
    then have "\<not> regexMatchesAt (drop (Suc k) ((a # pre) @ c # t))"
      using Cons.prems by (metis Suc_less_eq length_Cons)
    then show "\<not> regexMatchesAt (drop k (pre @ c # t))" by simp
  qed
  ultimately show ?case
    using Cons.IH by (simp add: dcs)
qed

lemma parseSystemCmd_first_match:
  assumes "s = pre @ ''$('' @ name @ '')'' @ post"
    and "\<forall>k<length pre. \<not> regexMatchesAt (drop k s)"
    and "name \<noteq> []" "CHR 0x0A \<notin> set name"
    and "CHR '')'' \<notin> set (takeWhile (\<lambda>x. x \<noteq> CHR 0x0A) post)"
  shows "parseSystemCmd s = (''$('' @ name @ '')'', name)"
proof -
  have "regexFind s = regexFind (CHR ''$'' # CHR ''('' # name @ '')'' @ post)"
    using assms(2) unfolding assms(1)
    using regexFind_leftmost [of pre "CHR ''$''" "CHR ''('' # name @ '')'' @ post"] by simp
  then show ?thesis
    using regexGroup_greedy [OF assms(3-5)] by (simp add: parseSystemCmd_def)
qed

lemma parseTasks_files_Inr:
  "parseTasks_files os env fs = Inr paths \<Longrightarrow>
   \<exists>exs. list_all2 (\<lambda>f ex. expandFilePaths os (replaceEnvironmentVariables env f) = Inr ex) fs exs
         \<and> paths = concat exs"
proof (induction fs arbitrary: paths)
  case Nil
  then show ?case by simp
next
  case (Cons f fs)
  from Cons.prems obtain ex ps where
    ex: "expandFilePaths os (replaceEnvironmentVariables env f) = Inr ex"
    and ps: "parseTasks_files os env fs = Inr ps" and paths: "paths = ex @ ps"
    by (auto split: sum.splits)
  from Cons.IH [OF ps] obtain exs where
    "list_all2 (\<lambda>f ex. expandFilePaths os (replaceEnvironmentVariables env f) = Inr ex) fs exs"
    "ps = concat exs"
    by blast
  with ex paths show ?case
    by (intro exI [of _ "ex # exs"]) simp
qed

text \<open>
  C3, as the code has it. During parsing every run command, after its \<open>{FILES}\<close>
  interpolation, and every file pattern, before it is expanded (the paths of the file
  loop are the concatenated expansions of the resolved patterns), is resolved by
  \<open>replaceEnvironmentVariables\<close>, which runs no process and trims nothing. For every
  string \<open>s\<close>: if the expression matches at no position of \<open>s\<close>, then \<open>s\<close> is left as it
  is. Otherwise \<open>s\<close> is \<open>pre\<close>, \<open>$(\<close>, \<open>name\<close>, \<open>)\<close>, \<open>post\<close>, where the token starts at
  the leftmost position with a match and \<open>name\<close>, not empty and without line feed, runs to
  the last closing parenthesis of its line; and for every such way of writing \<open>s\<close>, every
  occurrence of the text \<open>$(name)\<close> in \<open>s\<close> is replaced, from the left, by the value of the
  process environment variable called \<open>name\<close> (the empty string if it is unset). In
  particular, with no dollar sign before the token and no closing parenthesis after it,
  the result is \<open>pre\<close>, the value of the variable \<open>name\<close>, \<open>post\<close>.
\<close>

theorem substitution_reads_environment:
  "((\<forall>k<length s. \<not> regexMatchesAt (drop k s)) \<longrightarrow> replaceEnvironmentVariables env s = s)
   \<and> (\<forall>pre name post.
         s = pre @ ''$('' @ name @ '')'' @ post
         \<and> (\<forall>k<length pre. \<not> regexMatchesAt (drop k s))
         \<and> name \<noteq> [] \<and> CHR 0x0A \<notin> set name
         \<and> CHR '')'' \<notin> set (takeWhile (\<lambda>x. x \<noteq> CHR 0x0A) post) \<longrightarrow>
         replaceEnvironmentVariables env s
           = Replace s (''$('' @ name @ '')'') (Getenv env name))
   \<and> ((\<forall>k<length s. \<not> regexMatchesAt (drop k s))
        \<or> (\<exists>pre name post.
              s = pre @ ''$('' @ name @ '')'' @ post
              \<and> (\<forall>k<length pre. \<not> regexMatchesAt (drop k s))
              \<and> name \<noteq> [] \<and> CHR 0x0A \<notin> set name
              \<and> CHR '')'' \<notin> set (takeWhile (\<lambda>x. x \<noteq> CHR 0x0A) post)))
   \<and> (\<forall>pre name post.
         CHR ''$'' \<notin> set pre \<and> name \<noteq> [] \<and> CHR 0x0A \<notin> set name \<and> CHR '')'' \<notin> set post \<longrightarrow>
         replaceEnvironmentVariables env (pre @ ''$('' @ name @ '')'' @ post)
           = pre @ Getenv env name @ post)
   \<and> parseTasks_run env files run
        = map (\<lambda>c. replaceEnvironmentVariables env (Replace c ''{FILES}'' (Join files '' ''))) run
   \<and> (\<forall>paths. parseTasks_files os env fs = Inr paths \<longrightarrow>
         (\<exists>exs. list_all2 (\<lambda>f ex. expandFilePaths os (replaceEnvironmentVariables env f) = Inr ex)
                  fs exs
               \<and> paths = concat exs))"
proof (intro conjI)
  show "(\<forall>k<length s. \<not> regexMatchesAt (drop k s)) \<longrightarrow> replaceEnvironmentVariables env s = s"
  proof
    assume free: "\<forall>k<length s. \<not> regexMatchesAt (drop k s)"
    have "regexFind s = None"
    proof (cases "regexFind s")
      case None
      then show ?thesis .
    next
      case (Some m)
      obtain raw g where "m = (raw, g)" by (cases m)
      with Some regexFind_Some [of s raw g] obtain pre post where
        "s = pre @ ''$('' @ g @ '')'' @ post" "g \<noteq> []" "CHR 0x0A \<notin> set g"
        "CHR '')'' \<notin> set (takeWhile (\<lambda>x. x \<noteq> CHR 0x0A) post)"
        by auto
      then have "regexMatchesAt (drop (length pre) s)"
        using regexGroup_greedy [of g post] by (simp add: regexMatchesAt_Cons)
      moreover have "length pre < length s"
        using \<open>s = pre @ ''$('' @ g @ '')'' @ post\<close> by simp
      ultimately show ?thesis
        using free by blast
    qed
    then show "replaceEnvironmentVariables env s = s"
      by (simp add: replaceEnvironmentVariables_def parseSystemCmd_def)
  qed
next
  show "\<forall>pre name post.
         s = pre @ ''$('' @ name @ '')'' @ post
         \<and> (\<forall>k<length pre. \<not> regexMatchesAt (drop k s))
         \<and> name \<noteq> [] \<and> CHR 0x0A \<notin> set name
         \<and> CHR '')'' \<notin> set (takeWhile (\<lambda>x. x \<noteq> CHR 0x0A) post) \<longrightarrow>
         replaceEnvironmentVariables env s
           = Replace s (''$('' @ name @ '')'') (Getenv env name)"
  proof (intro allI impI)
    fix pre name post
    assume a: "s = pre @ ''$('' @ name @ '')'' @ post
         \<and> (\<forall>k<length pre. \<not> regexMatchesAt (drop k s))
         \<and> name \<noteq> [] \<and> CHR 0x0A \<notin> set name
         \<and> CHR '')'' \<notin> set (takeWhile (\<lambda>x. x \<noteq> CHR 0x0A) post)"
    then have "parseSystemCmd s = (''$('' @ name @ '')'', name)"
      by (intro parseSystemCmd_first_match [of s pre name post]) auto
    with a show "replaceEnvironmentVariables env s
           = Replace s (''$('' @ name @ '')'') (Getenv env name)"
      by (simp add: replaceEnvironmentVariables_def Let_def del: Replace.simps)
  qed
next
  show "(\<forall>k<length s. \<not> regexMatchesAt (drop k s))
        \<or> (\<exists>pre name post.
              s = pre @ ''$('' @ name @ '')'' @ post
              \<and> (\<forall>k<length pre. \<not> regexMatchesAt (drop k s))
              \<and> name \<noteq> [] \<and> CHR 0x0A \<notin> set name
              \<and> CHR '')'' \<notin> set (takeWhile (\<lambda>x. x \<noteq> CHR 0x0A) post))"
  proof (cases "regexFind s")
    case None
    then show ?thesis
      using regexFind_None [of s] by blast
  next
    case (Some m)
    obtain raw g where "m = (raw, g)" by (cases m)
    with Some regexFind_Some [of s raw g] show ?thesis
      by blast
  qed
next
  show "\<forall>pre name post.
         CHR ''$'' \<notin> set pre \<and> name \<noteq> [] \<and> CHR 0x0A \<notin> set name \<and> CHR '')'' \<notin> set post \<longrightarrow>
         replaceEnvironmentVariables env (pre @ ''$('' @ name @ '')'' @ post)
           = pre @ Getenv env name @ post"
    using replaceEnvironmentVariables_reads_environment by blast
next
  show "parseTasks_run env files run
        = map (\<lambda>c. replaceEnvironmentVariables env (Replace c ''{FILES}'' (Join files '' ''))) run"
    by (simp only: parseTasks_run_def)
next
  show "\<forall>paths. parseTasks_files os env fs = Inr paths \<longrightarrow>
         (\<exists>exs. list_all2 (\<lambda>f ex. expandFilePaths os (replaceEnvironmentVariables env f) = Inr ex)
                  fs exs
               \<and> paths = concat exs)"
    using parseTasks_files_Inr by blast
qed


text \<open>
  The witness: a command without token is unchanged; in \<open>cp $(A) $(B)\<close> the name is
  \<open>A) $(B\<close>, so the variables \<open>A\<close> and \<open>B\<close> are not read; of two tokens on two lines only
  the first is replaced; a single token is replaced by its variable.
\<close>

theorem substitution_reads_environment_witness:
  "replaceEnvironmentVariables [''A'' \<mapsto> ''v'', ''B'' \<mapsto> ''w''] ''make all'' = ''make all''
   \<and> replaceEnvironmentVariables [''A) $(B'' \<mapsto> ''x''] ''cp $(A) $(B)'' = ''cp x''
   \<and> replaceEnvironmentVariables [''A'' \<mapsto> ''v'', ''B'' \<mapsto> ''w''] ''cp $(A) $(B)'' = ''cp ''
   \<and> replaceEnvironmentVariables [''A'' \<mapsto> ''v'', ''B'' \<mapsto> ''w''] (''$(A)'' @ [CHR 0x0A] @ ''$(B)'')
        = ''v'' @ [CHR 0x0A] @ ''$(B)''
   \<and> replaceEnvironmentVariables [''echo hi'' \<mapsto> ''X''] ''say $(echo hi)'' = ''say X''
   \<and> parseTasks_run Map.empty [''a.go''] [''cat {FILES} $(echo hi)''] = [''cat a.go '']"
proof -
  let ?env = "[''A'' \<mapsto> ''v'', ''B'' \<mapsto> ''w'']"
  have free: "\<forall>k<length ''make all''. \<not> regexMatchesAt (drop k ''make all'')"
    by (simp add: regexMatchesAt_def All_less_Suc)
  have left: "\<forall>k<length ''cp ''. \<not> regexMatchesAt (drop k ''cp $(A) $(B)'')"
    by (simp add: regexMatchesAt_def All_less_Suc)
  have 1: "replaceEnvironmentVariables ?env ''make all'' = ''make all''"
    using substitution_reads_environment [of "''make all''" ?env] free by blast
  have 2: "replaceEnvironmentVariables env ''cp $(A) $(B)''
      = Replace ''cp $(A) $(B)'' (''$('' @ ''A) $(B'' @ '')'') (Getenv env ''A) $(B'')" for env
    using substitution_reads_environment [of "''cp $(A) $(B)''" env, THEN conjunct2, THEN conjunct1, rule_format,
        of "''cp ''" "''A) $(B''" "[]"] left
    by simp
  have 3: "replaceEnvironmentVariables ?env (''$(A)'' @ [CHR 0x0A] @ ''$(B)'')
      = Replace (''$(A)'' @ [CHR 0x0A] @ ''$(B)'') (''$('' @ ''A'' @ '')'') (Getenv ?env ''A'')"
    using substitution_reads_environment [of "''$(A)'' @ [CHR 0x0A] @ ''$(B)''" ?env, THEN conjunct2, THEN conjunct1, rule_format,
        of "[]" "''A''" "[CHR 0x0A] @ ''$(B)''"]
    by simp
  have 4: "replaceEnvironmentVariables env ''say $(echo hi)'' = ''say '' @ Getenv env ''echo hi''" for env
    using substitution_reads_environment [of "[]" env, THEN conjunct2, THEN conjunct2, THEN conjunct2, THEN conjunct1,
        rule_format, of "''say ''" "''echo hi''" "[]"]
    by simp
  have 5: "parseTasks_run Map.empty [''a.go''] [''cat {FILES} $(echo hi)'']
      = [replaceEnvironmentVariables Map.empty ''cat a.go $(echo hi)'']"
    using substitution_reads_environment [of "[]" Map.empty "[''a.go'']" "[''cat {FILES} $(echo hi)'']"] by simp
  have 6: "replaceEnvironmentVariables Map.empty ''cat a.go $(echo hi)''
      = ''cat a.go '' @ Getenv Map.empty ''echo hi''"
    using substitution_reads_environment [of "[]" Map.empty, THEN conjunct2, THEN conjunct2, THEN conjunct2, THEN conjunct1,
        rule_format, of "''cat a.go ''" "''echo hi''" "[]"]
    by simp
  show ?thesis
    using 1 2 [of "[''A) $(B'' \<mapsto> ''x'']"] 2 [of ?env] 3 4 [of "[''echo hi'' \<mapsto> ''X'']"] 5 6
    by (simp add: Getenv_def)
qed

text \<open>
  C3 as stated fails: on a system where \<open>echo\<close> prints its arguments and the environment
  is empty, parsing the task with the command \<open>say $(echo hi)\<close> and the file pattern
  \<open>$(echo a.go)\<close> yields the command \<open>say \<close> and no file, where running the commands and
  substituting their trimmed output, as the claim words it, yields \<open>say hi\<close> and \<open>a.go\<close>.
\<close>

theorem parseTasks_substitution_runs_no_command:
  "map_option Run (Tasks (fst (snd (parseTasks substitutionOS (freshParser loudOptions) Map.empty))) ''t'')
     = Some [''say '']
   \<and> map_option Files (Tasks (fst (snd (parseTasks substitutionOS (freshParser loudOptions) Map.empty))) ''t'')
     = Some []
   \<and> spec_substitute substitutionOS Map.empty ''say $(echo hi)'' = Inr ''say hi''
   \<and> spec_substitute substitutionOS Map.empty ''$(echo a.go)'' = Inr ''a.go''"
  by (simp add: substitutionOS_def spec_substitute_def parser_defs sample_defs tokenizer_defs)

section \<open>Properties of \<open>Bootstrap\<close> and \<open>parseGlobal\<close>\<close>

lemma parseGlobal_options:
  "parseGlobal os p env = (r, p', env') \<Longrightarrow> Parser.options p' = Parser.options p"
  by (auto simp: parseGlobal_def split: sum.splits prod.splits option.splits)

lemma parseTasks_error_keeps_parser:
  "parseTasks os p env = (Some err, p', env') \<Longrightarrow> p' = p"
  by (auto simp: parseTasks_def split: sum.splits prod.splits)

text \<open>
  C7, as the code has it. When the global section parses without error and the parsing
  of the tasks returns an error, as it does when a substitution command of a task's
  \<open>env\<close> fails: with quiet mode inactive \<open>Bootstrap\<close> reports that error and aborts
  (\<open>log.Fatal\<close>); with quiet mode active it does not abort on it: the error is dropped,
  the task table stays as it was, and \<open>Bootstrap\<close> goes on to encode the parser and write
  the cache file, and returns.
\<close>

theorem Bootstrap_task_parse_error:
  assumes g: "parseGlobal os p env = (None, p1, env1)"
    and t: "parseTasks os p1 env1 = (Some err, p2, env2)"
    and e: "\<not> is_panic err"
  shows "(\<not> Quiet (Parser.options p) \<longrightarrow> Bootstrap os [] p env = Fatal err)
     \<and> (Quiet (Parser.options p) \<longrightarrow>
          Tasks p2 = Tasks p1 \<and>
          Bootstrap os [] p env =
            (case GobEncode os p1 of
               Inl err' \<Rightarrow> Fatal err'
             | Inr pStr \<Rightarrow>
                 Returned p1 env2
                   (case WriteFile os (PathJoin os (TempDir os) (getTempFileName os)) pStr of
                      Some err' \<Rightarrow> []
                    | None \<Rightarrow> [(PathJoin os (TempDir os) (getTempFileName os), pStr)])))"
proof -
  have o: "Parser.options p1 = Parser.options p"
    using g by (rule parseGlobal_options)
  have p2: "p2 = p1"
    using t by (rule parseTasks_error_keeps_parser)
  show ?thesis
    using g t e o p2
    by (simp add: Bootstrap_def Bootstrap_tasks_def Bootstrap_write_def Let_def
        split: sum.splits option.splits)
qed

theorem Bootstrap_task_parse_error_witness:
  "Bootstrap failingEnvOS [] (freshParser loudOptions) Map.empty
     = Fatal (ProcessError ''exit status 1'')
   \<and> Bootstrap failingEnvOS [] (freshParser quietOptions) Map.empty
     = Returned (freshParser quietOptions) Map.empty [(''/tmp/goke--w'', ''gob'')]"
proof -
  have g: "parseGlobal failingEnvOS (freshParser opts) Map.empty
             = (None, freshParser opts, Map.empty)" for opts
    by (simp add: failingEnvOS_def parser_defs sample_defs)
  have t: "parseTasks failingEnvOS (freshParser opts) Map.empty
             = (Some (ProcessError ''exit status 1''), freshParser opts, Map.empty)" for opts
    by (simp add: failingEnvOS_def parser_defs sample_defs tokenizer_defs)
  have e: "\<not> is_panic (ProcessError ''exit status 1'')"
    by simp
  show ?thesis
    using Bootstrap_task_parse_error [OF g t e, of loudOptions]
      Bootstrap_task_parse_error [OF g t e, of quietOptions]
    by (simp add: failingEnvOS_def getTempFileName_def sample_defs)
qed

text \<open>
  C7 as stated fails: in quiet mode, with a task whose \<open>env\<close> entry \<open>K: $(false)\<close> runs a
  command that fails, \<open>Bootstrap\<close> returns, with an empty task table and the cache file
  written.
\<close>

theorem Bootstrap_quiet_does_not_abort:
  "Bootstrap failingEnvOS [] (freshParser quietOptions) Map.empty
     = Returned (freshParser quietOptions) Map.empty [(''/tmp/goke--w'', ''gob'')]"
  by (simp add: failingEnvOS_def parser_defs sample_defs tokenizer_defs)

text \<open>A substitution command that fails makes \<open>setEnvVariables\<close> return its error.\<close>

lemma setEnvVariables_first_fails:
  "snd (parseSystemCmd v) = cmd \<Longrightarrow> cmd \<noteq> [] \<Longrightarrow>
   ParseCommandLine (ExpandEnv os env cmd) = Inr (prog # rest) \<Longrightarrow>
   Exec os env prog rest = Inl err \<Longrightarrow>
   setEnvVariables os env ((k, v) # vars) = ([], Some err, env)"
  by (simp add: setEnvVariables_def)

text \<open>
  C10. When the document parses and resolving \<open>global.environment\<close> returns an error,
  \<open>parseGlobal\<close> returns \<open>nil\<close> and leaves the parser as it was: its \<open>Global\<close> field keeps
  the zero value, so neither the resolved environment nor the hook lists are stored.
\<close>

theorem parseGlobal_swallows_environment_error:
  assumes "YamlGlobal os (config p) = Inr g"
    and "setEnvVariables os env (Environment (Shared g)) = (vars, Some err, env')"
    and "\<not> is_panic err"
    and "Global p = zeroGlobal"
  shows "parseGlobal os p env = (None, p, env')
     \<and> Global (fst (snd (parseGlobal os p env))) = zeroGlobal"
  using assms by (simp add: parseGlobal_def)

theorem parseGlobal_swallows_environment_error_witness:
  "parseGlobal failingGlobalOS (freshParser loudOptions) Map.empty
     = (None, freshParser loudOptions, Map.empty)
   \<and> Global (fst (snd (parseGlobal failingGlobalOS (freshParser loudOptions) Map.empty)))
     = zeroGlobal"
proof -
  have y: "YamlGlobal failingGlobalOS (config (freshParser loudOptions)) = Inr failingGlobal"
    by (simp add: failingGlobalOS_def sampleOS_def)
  have s: "setEnvVariables failingGlobalOS Map.empty (Environment (Shared failingGlobal))
             = ([], Some (ProcessError ''exit status 1''), Map.empty)"
    by (simp add: failingGlobalOS_def failingGlobal_def parser_defs sample_defs tokenizer_defs)
  have e: "\<not> is_panic (ProcessError ''exit status 1'')"
    by simp
  have z: "Global (freshParser loudOptions) = zeroGlobal"
    by (simp add: freshParser_def)
  show ?thesis
    by (rule parseGlobal_swallows_environment_error [OF y s e z])
qed

text \<open>
  So \<open>Bootstrap\<close> reports nothing for such a failure, even with quiet mode inactive, and
  the hook \<open>echo T1\<close> of the document is lost.
\<close>

lemma Bootstrap_global_error_not_reported:
  "Bootstrap failingGlobalOS [] (freshParser loudOptions) Map.empty
     = Returned (freshParser loudOptions) Map.empty [(''/tmp/goke--w'', ''gob'')]"
  by (simp add: failingGlobalOS_def failingGlobal_def parser_defs sample_defs tokenizer_defs)

end
